theory Spec2Isabelle
  imports Complex_Main "HOL-Library.Char_ord" "HOL-Library.List_Lexorder"
begin

section \<open>Viewport controller (dungeontracker.js, lines 146-170 and 240-291)\<close>

text \<open>
  JavaScript numbers are idealised as real numbers: \<open>Math.max\<close> and \<open>Math.min\<close> are the
  lattice operations of the order, and the only arithmetic of the clamp step is one
  subtraction per axis and the division of the canvas size by \<open>maxZoom\<close>.  \<open>NaN\<close> is not
  represented.
\<close>

record config =
  COLS :: int
  ROWS :: int
  SIZE :: real
  GAP :: real
  PAD :: real

text \<open>\<open>computeBounds\<close> of dungeonGridSvg.js: the canvas size, rounded up.\<close>

definition grid_w :: "config \<Rightarrow> real" where
  "grid_w cfg =
     of_int \<lceil>PAD cfg * 2 + of_int (COLS cfg) * SIZE cfg + (of_int (COLS cfg) - 1) * GAP cfg\<rceil>"

definition grid_h :: "config \<Rightarrow> real" where
  "grid_h cfg =
     of_int \<lceil>PAD cfg * 2 + of_int (ROWS cfg) * SIZE cfg + (of_int (ROWS cfg) - 1) * GAP cfg\<rceil>"

definition vbMinW :: "config \<Rightarrow> real" where
  "vbMinW cfg = grid_w cfg"

definition vbMinH :: "config \<Rightarrow> real" where
  "vbMinH cfg = grid_h cfg"

definition maxZoom :: real where
  "maxZoom = 8"

definition vbMaxW :: "config \<Rightarrow> real" where
  "vbMaxW cfg = grid_w cfg / maxZoom"

definition vbMaxH :: "config \<Rightarrow> real" where
  "vbMaxH cfg = grid_h cfg / maxZoom"

record view =
  view_x :: real
  view_y :: real
  view_w :: real
  view_h :: real

text \<open>\<open>function clamp(n, a, b) { return Math.max(a, Math.min(b, n)); }\<close>\<close>

definition clamp :: "real \<Rightarrow> real \<Rightarrow> real \<Rightarrow> real" where
  "clamp n a b = max a (min b n)"

text \<open>
  \<open>clampView\<close> assigns the four fields in order; the bounds of \<open>x\<close> and \<open>y\<close> read the
  width and height that were just clamped.
\<close>

definition clampView :: "config \<Rightarrow> view \<Rightarrow> view" where
  "clampView cfg v =
     (let v1 = v\<lparr>view_w := clamp (view_w v) (vbMaxW cfg) (vbMinW cfg)\<rparr>;
          v2 = v1\<lparr>view_h := clamp (view_h v1) (vbMaxH cfg) (vbMinH cfg)\<rparr>;
          v3 = v2\<lparr>view_x := clamp (view_x v2) 0 (grid_w cfg - view_w v2)\<rparr>;
          v4 = v3\<lparr>view_y := clamp (view_y v3) 0 (grid_h cfg - view_h v3)\<rparr>
      in v4)"

text \<open>\<open>updateView\<close>: the clamp step, then the viewBox attribute is rewritten (no state).\<close>

definition updateView :: "config \<Rightarrow> view \<Rightarrow> view" where
  "updateView cfg v = clampView cfg v"

text \<open>
  The pan branch of \<open>onPointerMove\<close>.  \<open>sv\<close> is \<open>gesture.startView\<close>, \<open>dxPx\<close> and \<open>dyPx\<close>
  the pixel deltas from \<open>gesture.startPt\<close>, \<open>rw\<close> and \<open>rh\<close> the size of the bounding
  client rectangle of the SVG element.
\<close>

definition svgUnitsPerPx :: "view \<Rightarrow> real \<Rightarrow> real \<Rightarrow> real \<times> real" where
  "svgUnitsPerPx v rw rh = (view_w v / max 1 rw, view_h v / max 1 rh)"

definition panMove :: "config \<Rightarrow> view \<Rightarrow> real \<Rightarrow> real \<Rightarrow> real \<Rightarrow> real \<Rightarrow> view \<Rightarrow> view" where
  "panMove cfg sv dxPx dyPx rw rh v =
     (let (ux, uy) = svgUnitsPerPx v rw rh;
          v1 = v\<lparr>view_x := view_x sv - dxPx * ux\<rparr>;
          v2 = v1\<lparr>view_y := view_y sv - dyPx * uy\<rparr>
      in updateView cfg v2)"

text \<open>
  The pinch branch of \<open>onPointerMove\<close>.  \<open>d\<close> is the current distance of the two pointers,
  \<open>startDist\<close> the distance at the start of the gesture, \<open>(mx, my)\<close> the start midpoint in
  SVG units (\<open>gesture.startMidSvg\<close>), \<open>(midPxX, midPxY)\<close> the current midpoint in pixels
  relative to the rectangle.
\<close>

definition pinchMove ::
  "config \<Rightarrow> view \<Rightarrow> real \<Rightarrow> real \<Rightarrow> real \<Rightarrow> real \<Rightarrow> real \<Rightarrow> real \<Rightarrow> real \<Rightarrow> real \<Rightarrow> view \<Rightarrow> view" where
  "pinchMove cfg sv startDist d mx my midPxX midPxY rw rh v =
     (let scale = startDist / max 1 d;
          targetW = view_w sv * scale;
          targetH = view_h sv * scale;
          v1 = v\<lparr>view_w := clamp targetW (vbMaxW cfg) (vbMinW cfg)\<rparr>;
          v2 = v1\<lparr>view_h := clamp targetH (vbMaxH cfg) (vbMinH cfg)\<rparr>;
          v3 = v2\<lparr>view_x := mx - (midPxX / max 1 rw) * view_w v2\<rparr>;
          v4 = v3\<lparr>view_y := my - (midPxY / max 1 rh) * view_h v3\<rparr>
      in updateView cfg v4)"

text \<open>The inputs the geometry assumes: at least one column and row, no negative length.\<close>

definition valid_config :: "config \<Rightarrow> bool" where
  "valid_config cfg \<longleftrightarrow>
     1 \<le> COLS cfg \<and> 1 \<le> ROWS cfg \<and> 0 \<le> SIZE cfg \<and> 0 \<le> GAP cfg \<and> 0 \<le> PAD cfg"

definition default_config :: config where
  "default_config = \<lparr>COLS = 50, ROWS = 50, SIZE = 18, GAP = 2, PAD = 18\<rparr>"

text \<open>The clamp bounds of the window, as section 4.4 of the specification states them.\<close>

definition in_bounds :: "config \<Rightarrow> view \<Rightarrow> bool" where
  "in_bounds cfg v \<longleftrightarrow>
     grid_w cfg / maxZoom \<le> view_w v \<and> view_w v \<le> grid_w cfg \<and>
     grid_h cfg / maxZoom \<le> view_h v \<and> view_h v \<le> grid_h cfg \<and>
     0 \<le> view_x v \<and> view_x v \<le> grid_w cfg - view_w v \<and>
     0 \<le> view_y v \<and> view_y v \<le> grid_h cfg - view_h v"

section \<open>Values, keys and records of the annotation store (lines 44-66)\<close>

text \<open>
  The fields of a cell or room hold a string, \<open>null\<close>, or are absent (\<open>undefined\<close>, as in
  a snapshot written by an older version).  Truthiness is JavaScript's: of these values
  only a non-empty string is truthy.
\<close>

datatype jsval = Undefined | Null | Str string

fun truthy :: "jsval \<Rightarrow> bool" where
  "truthy (Str s) = (s \<noteq> [])"
| "truthy Undefined = False"
| "truthy Null = False"

text \<open>\<open>a || b\<close>\<close>

definition js_or :: "jsval \<Rightarrow> jsval \<Rightarrow> jsval" where
  "js_or a b = (if truthy a then a else b)"

text \<open>
  The decimal text of an integer, as a template literal writes a number that is an
  integer (below \<open>10^21\<close> in magnitude).
\<close>

definition digit_char :: "nat \<Rightarrow> char" where
  "digit_char d = ''0123456789'' ! d"

fun show_nat :: "nat \<Rightarrow> string" where
  "show_nat n = (if n < 10 then [digit_char n] else show_nat (n div 10) @ [digit_char (n mod 10)])"

declare show_nat.simps [simp del]

definition show_int :: "int \<Rightarrow> string" where
  "show_int i = (if i < 0 then CHR ''-'' # show_nat (nat (- i)) else show_nat (nat i))"

text \<open>
  JavaScript numbers are doubles.  \<open>dbl i\<close> is the double nearest to the integer \<open>i\<close>, as
  \<open>Number\<close> reads it from the decimal text of \<open>i\<close> and as an addition of doubles rounds its
  exact result: an integer of magnitude up to \<open>2^53\<close> is a double; a larger one is rounded to
  53 significant bits, a tie going to the even significand.  (Integers of magnitude
  \<open>2^1024\<close> and more, which become \<open>Infinity\<close>, are not in the model.)
\<close>

function expo :: "nat \<Rightarrow> nat" where
  "expo m = (if m < 2 ^ 53 then 0 else Suc (expo (m div 2)))"
  by pat_completeness auto
termination
  by (relation "measure id") auto

declare expo.simps [simp del]

definition round_nat :: "nat \<Rightarrow> nat" where
  "round_nat m =
     (let e = expo m; q = m div 2 ^ e; r = m mod 2 ^ e
      in if e = 0 then m
         else (if 2 ^ (e - 1) < r \<or> (r = 2 ^ (e - 1) \<and> odd q) then q + 1 else q) * 2 ^ e)"

definition dbl :: "int \<Rightarrow> int" where
  "dbl i = (if i < 0 then - int (round_nat (nat (- i))) else int (round_nat (nat i)))"

text \<open>
  A cell key is the string \<open>`${c},${r}`\<close> of two integers.  The model keeps a key as the
  pair of integers whose decimal text the string holds, and renders the string
  (\<open>key_text\<close>) where the source depends on its characters: the order of
  \<open>Array.prototype.sort\<close>, and the property names of an exported file.  The rendering is
  injective (\<open>key_text_inj\<close> below), so equality of keys is equality of the strings.

  \<open>k.split(",").map(Number)\<close> reads the two numbers back as doubles, and \<open>key(c, r)\<close> writes
  the text of what was read: \<open>reparse\<close>.  Coordinates of magnitude up to \<open>2^53\<close> are read
  back as they are; the key \<open>9007199254740993,0\<close> is read as \<open>9007199254740992,0\<close>.  The
  source re-parses keys in many places.  Everywhere but in \<open>dissolveRoom\<close> the key is one of
  a cell of the grid (the selected cell, a staged cell, or a key that was found to have a
  rectangle): the loops that build the grid count its coordinates up from \<open>0\<close>, they are
  read back as they are, and the model uses the key itself.  \<open>dissolveRoom\<close> re-parses the
  keys that a room lists, whether they have a rectangle or not, and a room that came with
  a file may list any key: there the model re-parses.

  A property name that is not the text of two integers (\<open>01,0\<close>, \<open>a,b\<close>) is not a key of
  this model; a file with such a name is outside the model (\<open>data_of\<close> below).
\<close>

type_synonym key = "int \<times> int"

definition key :: "int \<Rightarrow> int \<Rightarrow> key" where
  "key c r = (c, r)"

definition key_text :: "key \<Rightarrow> string" where
  "key_text k = show_int (fst k) @ '','' @ show_int (snd k)"

definition reparse :: "key \<Rightarrow> key" where
  "reparse k = key (dbl (fst k)) (dbl (snd k))"

text \<open>
  The property names of a file are strings.  \<open>read_key\<close> reads the two integers of a name
  that is the text of a key, and \<open>key_name\<close> tells whether a name is one.
\<close>

definition digit_val :: "char \<Rightarrow> nat" where
  "digit_val ch = of_char ch - 48"

definition read_nat :: "string \<Rightarrow> nat" where
  "read_nat ds = foldl (\<lambda>a ch. 10 * a + digit_val ch) 0 ds"

definition read_int :: "string \<Rightarrow> int" where
  "read_int t = (case t of
                   [] \<Rightarrow> 0
                 | ch # ds \<Rightarrow> if ch = CHR ''-'' then - int (read_nat ds) else int (read_nat t))"

definition read_key :: "string \<Rightarrow> key" where
  "read_key t =
     (let a = takeWhile (\<lambda>ch. ch \<noteq> CHR '','') t;
          b = drop (Suc (length a)) t
      in (read_int a, read_int b))"

definition key_name :: "string \<Rightarrow> bool" where
  "key_name t \<longleftrightarrow> key_text (read_key t) = t"

record cell =
  cell_c :: jsval
  cell_n :: jsval
  cell_icon :: jsval
  cell_roomId :: jsval

text \<open>
  A room lists its cells by key; in a file the list holds the strings (\<open>string room_rec\<close>).
\<close>

record 'k room_rec =
  room_id :: jsval
  room_name :: jsval
  room_kind :: jsval
  room_c :: jsval
  room_n :: jsval
  room_icon :: jsval
  room_cells :: "'k list"

type_synonym room = "key room_rec"

datatype target = TargetCell | TargetRoom

text \<open>
  The value of \<open>data.meta.nextRoomId\<close>: an integer (a double, of magnitude below \<open>10^21\<close>,
  where a number is written without an exponent), or what a \<open>meta\<close> object that came with
  a file can hold in its place and what the increment makes of it: no value
  (\<open>undefined\<close>), \<open>null\<close>, or \<open>NaN\<close>.

  \<open>`R${data.meta.nextRoomId++}`\<close> converts the old value to a number (\<open>undefined\<close> and \<open>NaN\<close>
  give \<open>NaN\<close>, \<open>null\<close> gives \<open>0\<close>), writes that number into the identifier, and stores the
  number plus one, rounded to a double: \<open>NaN + 1\<close> is \<open>NaN\<close>, and \<open>2^53 + 1\<close> is \<open>2^53\<close>, so
  that the counter stops there.
\<close>

datatype jscount = CUndef | CNull | CNaN | CInt int

fun count_text :: "jscount \<Rightarrow> string" where
  "count_text (CInt n) = show_int n"
| "count_text CNull = ''0''"
| "count_text CUndef = ''NaN''"
| "count_text CNaN = ''NaN''"

fun count_next :: "jscount \<Rightarrow> jscount" where
  "count_next (CInt n) = CInt (dbl (n + 1))"
| "count_next CNull = CInt 1"
| "count_next CUndef = CNaN"
| "count_next CNaN = CNaN"

text \<open>
  The state of one tracker: \<open>data.cells\<close>, \<open>data.rooms\<close>, \<open>data.meta.nextRoomId\<close>, and the
  selection state.  \<open>selectedRect\<close> is the rectangle of the grid that is selected, named by
  the key of its cell.  \<open>staged\<close> is a JavaScript \<open>Set\<close>: its elements in insertion order.
\<close>

record state =
  cells :: "key \<rightharpoonup> cell"
  rooms :: "string \<rightharpoonup> room"
  nextRoomId :: jscount
  editTarget :: target
  selectedCellKey :: "key option"
  selectedRect :: "key option"
  staged :: "key list"

subsection \<open>Cells\<close>

definition default_cell :: cell where
  "default_cell = \<lparr>cell_c = Null, cell_n = Str [], cell_icon = Str [], cell_roomId = Null\<rparr>"

text \<open>
  \<open>ensureCell\<close>: \<open>data.cells[k] ??= {...}\<close>, then the two fields an older record may lack
  are filled in.  The record it returns is the one stored under \<open>k\<close>.
\<close>

definition fill_cell :: "cell \<Rightarrow> cell" where
  "fill_cell cl =
     (let c1 = (if cell_icon cl = Undefined then cl\<lparr>cell_icon := Str []\<rparr> else cl);
          c2 = (if cell_roomId c1 = Undefined then c1\<lparr>cell_roomId := Null\<rparr> else c1)
      in c2)"

definition ensured_cell :: "cell option \<Rightarrow> cell" where
  "ensured_cell co = fill_cell (case co of None \<Rightarrow> default_cell | Some c0 \<Rightarrow> c0)"

definition ensureCell :: "key \<Rightarrow> state \<Rightarrow> cell \<times> state" where
  "ensureCell k s =
     (let cl = ensured_cell (cells s k)
      in (cl, s\<lparr>cells := (cells s)(k \<mapsto> cl)\<rparr>))"

text \<open>\<open>function roomById(id){ return id ? data.rooms[id] : null; }\<close>\<close>

definition roomById :: "jsval \<Rightarrow> state \<Rightarrow> room option" where
  "roomById v s = (case v of Str rid \<Rightarrow> (if rid \<noteq> [] then rooms s rid else None) | _ \<Rightarrow> None)"

subsection \<open>The grid\<close>

text \<open>
  \<open>grid.rectByKey\<close> holds one rectangle for every cell of the grid; \<open>rectForKey\<close> looks a
  key up there.
\<close>

definition in_grid :: "config \<Rightarrow> key \<Rightarrow> bool" where
  "in_grid cfg k \<longleftrightarrow> 0 \<le> fst k \<and> fst k < COLS cfg \<and> 0 \<le> snd k \<and> snd k < ROWS cfg"

definition rectForKey :: "config \<Rightarrow> key \<Rightarrow> key option" where
  "rectForKey cfg k = (if in_grid cfg k then Some k else None)"

text \<open>
  \<open>setVisual\<close> paints one rectangle; its first statement is \<open>ensureCell(c, r)\<close>, which is
  its only effect on the data.
\<close>

definition setVisual :: "key \<Rightarrow> state \<Rightarrow> state" where
  "setVisual k s = snd (ensureCell k s)"

definition repaint :: "config \<Rightarrow> key \<Rightarrow> state \<Rightarrow> state" where
  "repaint cfg k s = (case rectForKey cfg k of None \<Rightarrow> s | Some rect \<Rightarrow> setVisual k s)"

text \<open>\<open>rebuildAll\<close>: rows outside, columns inside.\<close>

definition grid_keys :: "config \<Rightarrow> key list" where
  "grid_keys cfg = concat (map (\<lambda>r. map (\<lambda>c. key c r) [0 .. COLS cfg - 1]) [0 .. ROWS cfg - 1])"

definition rebuildAll :: "config \<Rightarrow> state \<Rightarrow> state" where
  "rebuildAll cfg s = fold (repaint cfg) (grid_keys cfg) s"

subsection \<open>Selection\<close>

definition getCurrentCell :: "state \<Rightarrow> cell option \<times> state" where
  "getCurrentCell s =
     (case selectedCellKey s of
        None \<Rightarrow> (None, s)
      | Some k \<Rightarrow> (let (cl, s1) = ensureCell k s in (Some cl, s1)))"

text \<open>
  \<open>getCurrentRoom\<close> returns the room object stored under the selected cell's \<open>roomId\<close>;
  the model returns that identifier with it, since the callers write through the object.
\<close>

definition getCurrentRoom :: "state \<Rightarrow> (string \<times> room) option \<times> state" where
  "getCurrentRoom s =
     (let (co, s1) = getCurrentCell s
      in case co of
           None \<Rightarrow> (None, s1)
         | Some cl \<Rightarrow>
             (if \<not> truthy (cell_roomId cl) then (None, s1)
              else (case cell_roomId cl of
                      Str rid \<Rightarrow> (map_option (Pair rid) (roomById (Str rid) s1), s1)
                    | _ \<Rightarrow> (None, s1))))"

definition refreshButtons :: "state \<Rightarrow> state" where
  "refreshButtons s = snd (getCurrentRoom (snd (getCurrentCell s)))"

text \<open>
  \<open>selectCell(k, rect)\<close>, called with a rectangle that exists: a grouped cell opens the
  room for editing, any other cell opens the cell.
\<close>

definition selectCell :: "key \<Rightarrow> state \<Rightarrow> state" where
  "selectCell k s =
     (let s1 = s\<lparr>selectedCellKey := Some k, selectedRect := Some k\<rparr>;
          (cl, s2) = ensureCell k s1;
          ro = roomById (cell_roomId cl) s2;
          s3 = s2\<lparr>editTarget := (if ro \<noteq> None then TargetRoom else TargetCell)\<rparr>
      in refreshButtons s3)"

subsection \<open>Staging\<close>

definition toggleStage :: "config \<Rightarrow> key \<Rightarrow> state \<Rightarrow> state" where
  "toggleStage cfg k s =
     (case rectForKey cfg k of
        None \<Rightarrow> s
      | Some rect \<Rightarrow>
          (if k \<in> set (staged s) then setVisual k (s\<lparr>staged := removeAll k (staged s)\<rparr>)
           else s\<lparr>staged := staged s @ [k]\<rparr>))"

definition clearStage :: "config \<Rightarrow> state \<Rightarrow> state" where
  "clearStage cfg s = (fold (repaint cfg) (staged s) s)\<lparr>staged := []\<rparr>"

text \<open>
  \<open>onCellLeave\<close> repaints the cell the pointer leaves, unless it is selected or staged
  (\<open>onCellEnter\<close> only sets \<open>hoverKey\<close> and an attribute of the rectangle).
\<close>

definition onCellLeave :: "key \<Rightarrow> state \<Rightarrow> state" where
  "onCellLeave k s = (if selectedRect s \<noteq> Some k \<and> k \<notin> set (staged s) then setVisual k s else s)"

text \<open>\<open>onCellClick\<close>, for a click that is not suppressed by a recent drag.\<close>

definition onCellClick :: "config \<Rightarrow> key \<Rightarrow> bool \<Rightarrow> state \<Rightarrow> state" where
  "onCellClick cfg k shiftKey s = (if shiftKey then toggleStage cfg k s else selectCell k s)"

section \<open>Room formation (lines 417-503)\<close>

subsection \<open>The contiguity check\<close>

text \<open>The four neighbours, in the order of the array \<open>neigh\<close>.\<close>

definition neigh :: "key \<Rightarrow> key list" where
  "neigh k =
     (let c = fst k; r = snd k
      in [key (c + 1) r, key (c - 1) r, key c (r + 1), key c (r - 1)])"

text \<open>
  The inner \<open>for\<close> loop over the neighbours of the cell taken from the queue: a neighbour
  that is staged and not yet seen is added to \<open>seen\<close> and pushed on the queue.  \<open>seen\<close> is a
  \<open>Set\<close>; an element is added only when it is not there, so the list has no duplicates and
  its length is \<open>seen.size\<close>.
\<close>

fun visit :: "key list \<Rightarrow> key list \<Rightarrow> key list \<times> key list \<Rightarrow> key list \<times> key list" where
  "visit keys [] (q, seen) = (q, seen)"
| "visit keys (n # ns) (q, seen) =
     (if n \<notin> set keys \<or> n \<in> set seen then visit keys ns (q, seen)
      else visit keys ns (q @ [n], seen @ [n]))"

lemma visit_measure:
  "visit keys ns (q, seen) = (q', seen') \<Longrightarrow>
   2 * card (set keys - set seen') + length q' \<le> 2 * card (set keys - set seen) + length q"
proof (induction ns arbitrary: q seen)
  case Nil
  then show ?case by simp
next
  case (Cons n ns)
  show ?case
  proof (cases "n \<notin> set keys \<or> n \<in> set seen")
    case True
    with Cons show ?thesis by simp
  next
    case False
    then have v: "visit keys ns (q @ [n], seen @ [n]) = (q', seen')"
      using Cons.prems by simp
    have m: "n \<in> set keys - set seen" using False by simp
    have e: "set keys - set (seen @ [n]) = (set keys - set seen) - {n}" by auto
    have "0 < card (set keys - set seen)"
      using m by (metis List.finite_set card_gt_0_iff empty_iff finite_Diff)
    then have c: "card (set keys - set seen) = Suc (card (set keys - set (seen @ [n])))"
      using m by (simp add: e)
    from Cons.IH [OF v] c show ?thesis by simp
  qed
qed

text \<open>
  The \<open>while (q.length)\<close> loop: \<open>q.shift()\<close> takes the head of the queue.  Every round
  removes one cell from the queue, and every cell pushed leaves the staged cells not yet
  seen, which is why the loop ends.
\<close>

function bfs :: "key list \<Rightarrow> key list \<Rightarrow> key list \<Rightarrow> key list" where
  "bfs keys [] seen = seen"
| "bfs keys (cur # q) seen =
     bfs keys (fst (visit keys (neigh cur) (q, seen))) (snd (visit keys (neigh cur) (q, seen)))"
  by pat_completeness auto
termination
proof (relation "measure (\<lambda>(keys, q, seen). 2 * card (set keys - set seen) + length q)")
  show "wf (measure (\<lambda>(keys, q, seen). 2 * card (set keys - set seen) + length q))"
    by simp
next
  fix cur :: key and q seen keys :: "key list"
  obtain q' seen' where v: "visit keys (neigh cur) (q, seen) = (q', seen')"
    by (cases "visit keys (neigh cur) (q, seen)")
  from visit_measure [OF v]
  have "2 * card (set keys - set seen') + length q' \<le> 2 * card (set keys - set seen) + length q" .
  then show "((keys, fst (visit keys (neigh cur) (q, seen)), snd (visit keys (neigh cur) (q, seen))),
         (keys, cur # q, seen))
        \<in> measure (\<lambda>(keys, q, seen). 2 * card (set keys - set seen) + length q)"
    by (simp add: v)
qed

text \<open>
  \<open>isContiguous(keys)\<close>: at most one key is contiguous without a search; otherwise the
  search starts at \<open>keys[0]\<close> and the result is \<open>seen.size === set.size\<close>.
\<close>

fun isContiguous :: "key list \<Rightarrow> bool" where
  "isContiguous [] = True"
| "isContiguous [k] = True"
| "isContiguous (start # rest) =
     (let keys = start # rest;
          seen = bfs keys [start] [start]
      in length seen = card (set keys))"

subsection \<open>Creating a room\<close>

text \<open>\<open>anyInRoom\<close>: the first truthy \<open>roomId\<close> among the cells of the keys, else \<open>null\<close>.\<close>

fun anyInRoom :: "key list \<Rightarrow> state \<Rightarrow> jsval \<times> state" where
  "anyInRoom [] s = (Null, s)"
| "anyInRoom (k # ks) s =
     (let (cl, s1) = ensureCell k s
      in if truthy (cell_roomId cl) then (cell_roomId cl, s1) else anyInRoom ks s1)"

datatype create_error = EmptyStage | NotContiguous | AlreadyGrouped

text \<open>One round of the loop that assigns the new room to its cells.\<close>

definition assignRoom :: "config \<Rightarrow> string \<Rightarrow> key \<Rightarrow> state \<Rightarrow> state" where
  "assignRoom cfg rid k s =
     (let (cl, s1) = ensureCell k s;
          s2 = s1\<lparr>cells := (cells s1)(k \<mapsto> cl\<lparr>cell_roomId := Str rid\<rparr>)\<rparr>
      in repaint cfg k s2)"

text \<open>
  \<open>createRoomFromStage\<close>.  The three early returns are the three errors; the two later
  ones are announced by \<open>alert\<close>.  \<open>keys.slice().sort()\<close> orders the key strings by their
  characters.
\<close>

definition new_room :: "string \<Rightarrow> key list \<Rightarrow> room" where
  "new_room rid keys =
     \<lparr>room_id = Str rid, room_name = Str (''Room '' @ rid), room_kind = Str ''room'',
      room_c = Str ''#3c6270'', room_n = Str [], room_icon = Str [],
      room_cells = sort_key key_text keys\<rparr>"

definition createRoomFromStage :: "config \<Rightarrow> state \<Rightarrow> (create_error + string) \<times> state" where
  "createRoomFromStage cfg s =
     (let keys = staged s
      in if keys = [] then (Inl EmptyStage, s)
         else if \<not> isContiguous keys then (Inl NotContiguous, s)
         else
           (let (existingRoomId, s1) = anyInRoom keys s
            in if truthy existingRoomId then (Inl AlreadyGrouped, s1)
               else
                 (let rid = ''R'' @ count_text (nextRoomId s1);
                      s2 = s1\<lparr>nextRoomId := count_next (nextRoomId s1)\<rparr>;
                      rm = new_room rid keys;
                      s3 = s2\<lparr>rooms := (rooms s2)(rid \<mapsto> rm)\<rparr>;
                      s4 = fold (assignRoom cfg rid) (room_cells rm) s3;
                      s5 = clearStage cfg s4;
                      firstK = hd (room_cells rm);
                      s6 = (case rectForKey cfg firstK of
                              None \<Rightarrow> s5
                            | Some rect \<Rightarrow> selectCell firstK s5);
                      s7 = s6\<lparr>editTarget := TargetRoom\<rparr>
                  in (Inr rid, refreshButtons s7))))"

subsection \<open>Dissolving and deleting a room (lines 505-534)\<close>

text \<open>
  One round of the loop of \<open>dissolveRoom\<close>: the cell at the coordinates read from the key
  is released, and painted when the key itself has a rectangle.
\<close>

definition releaseCell :: "config \<Rightarrow> key \<Rightarrow> state \<Rightarrow> state" where
  "releaseCell cfg k s =
     (let k' = reparse k;
          (cl, s1) = ensureCell k' s;
          s2 = s1\<lparr>cells := (cells s1)(k' \<mapsto> cl\<lparr>cell_roomId := Null\<rparr>)\<rparr>
      in case rectForKey cfg k of None \<Rightarrow> s2 | Some rect \<Rightarrow> setVisual k' s2)"

definition dissolveRoom :: "config \<Rightarrow> jsval \<Rightarrow> state \<Rightarrow> state" where
  "dissolveRoom cfg roomId s =
     (case roomById roomId s of
        None \<Rightarrow> s
      | Some rm \<Rightarrow>
          (let s1 = fold (releaseCell cfg) (room_cells rm) s;
               s2 = (case roomId of
                       Str rid \<Rightarrow> s1\<lparr>rooms := (rooms s1)(rid := None)\<rparr>
                     | _ \<Rightarrow> s1);
               s3 = s2\<lparr>editTarget := TargetCell\<rparr>
           in refreshButtons s3))"

text \<open>
  The two buttons.  \<open>confirmed\<close> is the answer of the \<open>confirm\<close> dialog, which is asked only
  when there is a current room.
\<close>

definition deleteCurrentRoom :: "config \<Rightarrow> bool \<Rightarrow> state \<Rightarrow> state" where
  "deleteCurrentRoom cfg confirmed s =
     (let (ro, s1) = getCurrentRoom s
      in case ro of
           None \<Rightarrow> s1
         | Some (rid, rm) \<Rightarrow> (if \<not> confirmed then s1 else dissolveRoom cfg (room_id rm) s1))"

definition dissolveRoomBtn :: "config \<Rightarrow> bool \<Rightarrow> state \<Rightarrow> state" where
  "dissolveRoomBtn cfg confirmed s =
     (let (ro, s1) = getCurrentRoom s
      in case ro of
           None \<Rightarrow> s1
         | Some (rid, rm) \<Rightarrow> (if \<not> confirmed then s1 else dissolveRoom cfg (room_id rm) s1))"

section \<open>Panel bindings (lines 548-654)\<close>

text \<open>
  The handlers read a room through \<open>getCurrentRoom\<close> and write its fields in place; in the
  model the changed record is stored back under the identifier it was read from.
\<close>

definition applyColor :: "config \<Rightarrow> string \<Rightarrow> state \<Rightarrow> state" where
  "applyColor cfg color s =
     (case (selectedCellKey s, selectedRect s) of
        (Some k, Some rect) \<Rightarrow>
          (let (co, s1) = getCurrentCell s
           in if editTarget s1 = TargetRoom then
                (let (ro, s2) = getCurrentRoom s1
                 in case ro of
                      None \<Rightarrow> s2
                    | Some (rid, rm) \<Rightarrow>
                        (let s3 = s2\<lparr>rooms := (rooms s2)(rid \<mapsto> rm\<lparr>room_c := Str color\<rparr>)\<rparr>
                         in fold (repaint cfg) (room_cells rm) s3))
              else
                (case co of
                   None \<Rightarrow> s1
                 | Some cl \<Rightarrow>
                     setVisual k (s1\<lparr>cells := (cells s1)(k \<mapsto> cl\<lparr>cell_c := Str color\<rparr>)\<rparr>)))
      | _ \<Rightarrow> s)"

definition applyIcon :: "string \<Rightarrow> state \<Rightarrow> state" where
  "applyIcon icon s =
     (case (selectedCellKey s, selectedRect s) of
        (Some k, Some rect) \<Rightarrow>
          (let (co, s1) = getCurrentCell s;
               val = js_or (Str icon) (Str [])
           in if editTarget s1 = TargetRoom then
                (let (ro, s2) = getCurrentRoom s1
                 in case ro of
                      None \<Rightarrow> s2
                    | Some (rid, rm) \<Rightarrow> s2\<lparr>rooms := (rooms s2)(rid \<mapsto> rm\<lparr>room_icon := val\<rparr>)\<rparr>)
              else
                (case co of
                   None \<Rightarrow> s1
                 | Some cl \<Rightarrow> s1\<lparr>cells := (cells s1)(k \<mapsto> cl\<lparr>cell_icon := val\<rparr>)\<rparr>))
      | _ \<Rightarrow> s)"

definition applyNotes :: "string \<Rightarrow> state \<Rightarrow> state" where
  "applyNotes notes s =
     (case selectedCellKey s of
        None \<Rightarrow> s
      | Some k \<Rightarrow>
          (let (co, s1) = getCurrentCell s
           in if editTarget s1 = TargetRoom then
                (let (ro, s2) = getCurrentRoom s1
                 in case ro of
                      None \<Rightarrow> s2
                    | Some (rid, rm) \<Rightarrow> s2\<lparr>rooms := (rooms s2)(rid \<mapsto> rm\<lparr>room_n := Str notes\<rparr>)\<rparr>)
              else
                (case co of
                   None \<Rightarrow> s1
                 | Some cl \<Rightarrow> s1\<lparr>cells := (cells s1)(k \<mapsto> cl\<lparr>cell_n := Str notes\<rparr>)\<rparr>)))"

text \<open>\<open>room.name = name || room.name\<close>\<close>

definition applyRoomName :: "string \<Rightarrow> state \<Rightarrow> state" where
  "applyRoomName name s =
     (let (ro, s1) = getCurrentRoom s
      in case ro of
           None \<Rightarrow> s1
         | Some (rid, rm) \<Rightarrow>
             s1\<lparr>rooms := (rooms s1)(rid \<mapsto> rm\<lparr>room_name := js_or (Str name) (room_name rm)\<rparr>)\<rparr>)"

text \<open>\<open>room.kind = kind || "room"\<close>\<close>

definition applyRoomKind :: "string \<Rightarrow> state \<Rightarrow> state" where
  "applyRoomKind kind s =
     (let (ro, s1) = getCurrentRoom s
      in case ro of
           None \<Rightarrow> s1
         | Some (rid, rm) \<Rightarrow>
             s1\<lparr>rooms := (rooms s1)(rid \<mapsto> rm\<lparr>room_kind := js_or (Str kind) (Str ''room'')\<rparr>)\<rparr>)"

datatype clear_error = CellIsGrouped

definition clearSelectedCell :: "state \<Rightarrow> (clear_error + unit) \<times> state" where
  "clearSelectedCell s =
     (case (selectedCellKey s, selectedRect s) of
        (Some k, Some rect) \<Rightarrow>
          (let (co, s1) = getCurrentCell s
           in case co of
                None \<Rightarrow> (Inr (), s1)
              | Some cl \<Rightarrow>
                  (if truthy (cell_roomId cl) then (Inl CellIsGrouped, s1)
                   else
                     (let cl' = cl\<lparr>cell_c := Null, cell_icon := Str [], cell_n := Str []\<rparr>
                      in (Inr (), setVisual k (s1\<lparr>cells := (cells s1)(k \<mapsto> cl')\<rparr>)))))
      | _ \<Rightarrow> (Inr (), s))"

section \<open>Export, import, wipe (lines 725-789 and 856-870)\<close>

text \<open>
  The data of a tracker, as \<open>save\<close> writes it and \<open>load\<close> reads it.
\<close>

record store =
  store_cells :: "key \<rightharpoonup> cell"
  store_rooms :: "string \<rightharpoonup> room"
  store_nextRoomId :: jscount

definition empty_store :: store where
  "empty_store = \<lparr>store_cells = Map.empty, store_rooms = Map.empty, store_nextRoomId = CInt 1\<rparr>"

text \<open>
  The object that \<open>JSON.parse\<close> returns for the text of a file, as far as import reads it.
  A field of it is absent (\<open>Absent\<close>, which also stands for a falsy value: \<open>null\<close>, \<open>false\<close>,
  \<open>0\<close>, the empty string), or holds an object of the shape the tracker writes (\<open>Object\<close>),
  or holds any other value, which is truthy (\<open>Foreign\<close>: a number, \<open>true\<close>, a string, an
  array, an object with members of another shape).  The cells of a file are an object
  from property names to cell records, the rooms an object from identifiers to room
  records that list property names, and \<open>snap_meta\<close> is the \<open>meta\<close> object, given by the
  value of its \<open>nextRoomId\<close>.  \<open>blob_data\<close> is \<open>None\<close> when \<open>obj\<close> is not an object, or
  \<open>obj.data\<close> is absent or not an object: then \<open>obj?.data?.cells\<close> is \<open>undefined\<close>.
\<close>

datatype 'a field = Absent | Foreign | Object 'a

record snapshot =
  snap_cells :: "(string \<rightharpoonup> cell) field"
  snap_rooms :: "(string \<rightharpoonup> string room_rec) field"
  snap_meta :: "jscount field"

record blob =
  blob_cols :: int
  blob_rows :: int
  blob_data :: "snapshot option"

text \<open>
  \<open>doExport\<close> writes \<open>JSON.stringify({ cols, rows, data })\<close> to a file; the model gives the
  object that \<open>JSON.parse\<close> returns for that text.  The cells are written under the texts
  of their keys and the members of a room as the texts of theirs.  \<open>JSON.stringify\<close> leaves
  out a member that is \<open>undefined\<close>, which is then \<open>undefined\<close> when read; it writes a
  string, \<open>null\<close> and an integer as they are, and writes \<open>NaN\<close> as \<open>null\<close>.
\<close>

definition names_of :: "(key \<rightharpoonup> 'a) \<Rightarrow> (string \<rightharpoonup> 'a)" where
  "names_of m = (\<lambda>t. if key_name t then m (read_key t) else None)"

definition write_room :: "room \<Rightarrow> string room_rec" where
  "write_room rm =
     \<lparr>room_id = room_id rm, room_name = room_name rm, room_kind = room_kind rm,
      room_c = room_c rm, room_n = room_n rm, room_icon = room_icon rm,
      room_cells = map key_text (room_cells rm)\<rparr>"

fun json_count :: "jscount \<Rightarrow> jscount" where
  "json_count CNaN = CNull"
| "json_count (CInt n) = CInt n"
| "json_count CNull = CNull"
| "json_count CUndef = CUndef"

definition doExport :: "config \<Rightarrow> state \<Rightarrow> blob" where
  "doExport cfg s =
     \<lparr>blob_cols = COLS cfg, blob_rows = ROWS cfg,
      blob_data = Some \<lparr>snap_cells = Object (names_of (cells s)),
                        snap_rooms = Object (\<lambda>rid. map_option write_room (rooms s rid)),
                        snap_meta = Object (json_count (nextRoomId s))\<rparr>\<rparr>"

text \<open>
  The data that import and \<open>loadState\<close> put in place of the old: \<open>obj.data.cells\<close>,
  \<open>obj.data.rooms\<close> and \<open>obj.data.meta || { nextRoomId: 1 }\<close>.  It is a store of this model
  when the three fields are of the tracker's shape and every property name of the cells
  and every member of a room is the text of a key; otherwise (\<open>None\<close>) the tracker goes on
  with data that the model has no state for.
\<close>

definition keys_of :: "(string \<rightharpoonup> 'a) \<Rightarrow> (key \<rightharpoonup> 'a)" where
  "keys_of f = (\<lambda>k. f (key_text k))"

definition read_room :: "string room_rec \<Rightarrow> room" where
  "read_room fr =
     \<lparr>room_id = room_id fr, room_name = room_name fr, room_kind = room_kind fr,
      room_c = room_c fr, room_n = room_n fr, room_icon = room_icon fr,
      room_cells = map read_key (room_cells fr)\<rparr>"

definition key_names :: "(string \<rightharpoonup> 'a) \<Rightarrow> bool" where
  "key_names f \<longleftrightarrow> (\<forall>t. f t \<noteq> None \<longrightarrow> key_name t)"

definition key_members :: "(string \<rightharpoonup> string room_rec) \<Rightarrow> bool" where
  "key_members rs \<longleftrightarrow> (\<forall>rid fr. rs rid = Some fr \<longrightarrow> list_all key_name (room_cells fr))"

fun meta_of :: "jscount field \<Rightarrow> jscount option" where
  "meta_of Absent = Some (CInt 1)"
| "meta_of (Object c) = Some c"
| "meta_of Foreign = None"

definition data_of :: "snapshot \<Rightarrow> store option" where
  "data_of d =
     (case (snap_cells d, snap_rooms d, meta_of (snap_meta d)) of
        (Object cs, Object rs, Some c) \<Rightarrow>
          (if key_names cs \<and> key_members rs
           then Some \<lparr>store_cells = keys_of cs,
                       store_rooms = (\<lambda>rid. map_option read_room (rs rid)),
                       store_nextRoomId = c\<rparr>
           else None)
      | _ \<Rightarrow> None)"

definition install :: "store \<Rightarrow> state \<Rightarrow> state" where
  "install d s = s\<lparr>cells := store_cells d, rooms := store_rooms d, nextRoomId := store_nextRoomId d\<rparr>"

datatype import_error = InvalidFile


text \<open>What import and wipe do after the data is replaced.\<close>

definition resetSelection :: "config \<Rightarrow> state \<Rightarrow> state" where
  "resetSelection cfg s =
     (let s1 = rebuildAll cfg s;
          s2 = clearStage cfg s1;
          s3 = s2\<lparr>selectedCellKey := None, selectedRect := None\<rparr>
      in refreshButtons s3)"

text \<open>
  \<open>doImport\<close>.  \<open>if (!obj?.data?.cells || !obj?.data?.rooms) return alert("Invalid file.")\<close>
  tests the two fields for truthiness; a file that passes replaces the data.  The second
  component is the state after the call, \<open>None\<close> when the new data is not a store of the
  model.
\<close>

definition doImport :: "config \<Rightarrow> blob \<Rightarrow> state \<Rightarrow> (import_error + unit) \<times> state option" where
  "doImport cfg obj s =
     (case blob_data obj of
        None \<Rightarrow> (Inl InvalidFile, Some s)
      | Some d \<Rightarrow>
          (if snap_cells d = Absent \<or> snap_rooms d = Absent then (Inl InvalidFile, Some s)
           else (Inr (), map_option (\<lambda>st. resetSelection cfg (install st s)) (data_of d))))"

definition doWipe :: "config \<Rightarrow> bool \<Rightarrow> state \<Rightarrow> state" where
  "doWipe cfg confirmed s =
     (if \<not> confirmed then s
      else resetSelection cfg (install empty_store s))"

text \<open>\<open>loadState(state)\<close>: \<open>if (!state?.cells || !state?.rooms) return;\<close>, then as import.\<close>

definition loadState :: "config \<Rightarrow> snapshot \<Rightarrow> state \<Rightarrow> state option" where
  "loadState cfg d s =
     (if snap_cells d = Absent \<or> snap_rooms d = Absent then Some s
      else map_option (\<lambda>st. rebuildAll cfg (install st s)) (data_of d))"

section \<open>Events (lines 791-846) and the states of a tracker\<close>

text \<open>
  \<open>createDungeonTracker\<close> reads the saved data (or starts empty) and builds the grid, which
  paints every cell once.
\<close>

definition init :: "config \<Rightarrow> store \<Rightarrow> state" where
  "init cfg d =
     refreshButtons (rebuildAll cfg
       \<lparr>cells = store_cells d, rooms = store_rooms d, nextRoomId = store_nextRoomId d,
        editTarget = TargetCell, selectedCellKey = None, selectedRect = None, staged = []\<rparr>)"

definition onEscape :: "config \<Rightarrow> state \<Rightarrow> state" where
  "onEscape cfg s =
     (let s1 = clearStage cfg s
      in if editTarget s1 = TargetRoom then
           (let s2 = s1\<lparr>editTarget := TargetCell\<rparr>;
                (co, s3) = getCurrentCell s2
            in refreshButtons s3)
         else s1)"

text \<open>
  Enter creates the room when the button is enabled, that is when the stage is not empty
  and contiguous (\<open>renderStageStatus\<close> runs after every change of the stage).
\<close>

definition onEnter :: "config \<Rightarrow> state \<Rightarrow> state" where
  "onEnter cfg s =
     (if staged s \<noteq> [] \<and> isContiguous (staged s) then snd (createRoomFromStage cfg s) else s)"

text \<open>A click on the entry of a room in the room list.\<close>

definition onRoomListClick :: "config \<Rightarrow> string \<Rightarrow> state \<Rightarrow> state" where
  "onRoomListClick cfg rid s =
     (case rooms s rid of
        None \<Rightarrow> s
      | Some rm \<Rightarrow>
          (let s1 = (case room_cells rm of
                       [] \<Rightarrow> s
                     | k # ks \<Rightarrow> (case rectForKey cfg k of None \<Rightarrow> s | Some rect \<Rightarrow> selectCell k s));
               s2 = s1\<lparr>editTarget := TargetRoom\<rparr>
           in refreshButtons s2))"

datatype event =
    CellClick key bool
  | CellLeave key
  | ColorInput string
  | IconInput string
  | NotesInput string
  | RoomNameInput string
  | RoomKindChange string
  | CreateRoomClick
  | DissolveRoomClick bool
  | DeleteRoomClick bool
  | ClearCellClick
  | ImportFile blob
  | WipeClick bool
  | KeyEscape
  | KeyEnter
  | RoomListClick string
  | LoadState snapshot
  | ClearStageCall

text \<open>
  One event.  Only the rectangles of the grid can be clicked or left.  An import or a
  \<open>loadState\<close> whose data is not a store of the model has no state to go to; \<open>in_model\<close>
  tells the events that have one, and \<open>step\<close> is meant for those.
\<close>

definition modelled :: "snapshot \<Rightarrow> bool" where
  "modelled d \<longleftrightarrow> snap_cells d = Absent \<or> snap_rooms d = Absent \<or> data_of d \<noteq> None"

fun in_model :: "event \<Rightarrow> bool" where
  "in_model (ImportFile obj) = (case blob_data obj of None \<Rightarrow> True | Some d \<Rightarrow> modelled d)"
| "in_model (LoadState d) = modelled d"
| "in_model ev = True"

fun step :: "config \<Rightarrow> event \<Rightarrow> state \<Rightarrow> state" where
  "step cfg (CellClick k shiftKey) s = (if in_grid cfg k then onCellClick cfg k shiftKey s else s)"
| "step cfg (CellLeave k) s = (if in_grid cfg k then onCellLeave k s else s)"
| "step cfg (ColorInput v) s = applyColor cfg v s"
| "step cfg (IconInput v) s = applyIcon v s"
| "step cfg (NotesInput v) s = applyNotes v s"
| "step cfg (RoomNameInput v) s = applyRoomName v s"
| "step cfg (RoomKindChange v) s = applyRoomKind v s"
| "step cfg CreateRoomClick s = snd (createRoomFromStage cfg s)"
| "step cfg (DissolveRoomClick b) s = dissolveRoomBtn cfg b s"
| "step cfg (DeleteRoomClick b) s = deleteCurrentRoom cfg b s"
| "step cfg ClearCellClick s = snd (clearSelectedCell s)"
| "step cfg (ImportFile obj) s = (case snd (doImport cfg obj s) of None \<Rightarrow> s | Some s' \<Rightarrow> s')"
| "step cfg (WipeClick b) s = doWipe cfg b s"
| "step cfg KeyEscape s = onEscape cfg s"
| "step cfg KeyEnter s = onEnter cfg s"
| "step cfg (RoomListClick rid) s = onRoomListClick cfg rid s"
| "step cfg (LoadState d) s = (case loadState cfg d s of None \<Rightarrow> s | Some s' \<Rightarrow> s')"
| "step cfg ClearStageCall s = clearStage cfg s"

definition run :: "config \<Rightarrow> event list \<Rightarrow> state \<Rightarrow> state" where
  "run cfg evs s = fold (step cfg) evs s"


text \<open>The states a tracker can be in: after any events, from any saved data.\<close>

inductive reachable :: "config \<Rightarrow> state \<Rightarrow> bool" for cfg :: config where
  reach_init: "reachable cfg (init cfg d)"
| reach_step: "reachable cfg s \<Longrightarrow> in_model ev \<Longrightarrow> reachable cfg (step cfg ev s)"

section \<open>Well-formedness\<close>

text \<open>A cell record that has its \<open>icon\<close> and \<open>roomId\<close> fields.\<close>

definition filled :: "cell \<Rightarrow> bool" where
  "filled cl \<longleftrightarrow> cell_icon cl \<noteq> Undefined \<and> cell_roomId cl \<noteq> Undefined"

text \<open>
  A state used in the examples: the one-cell room \<open>R1\<close> that staging the cell \<open>0,0\<close> and
  creating a room from it leaves behind, open for editing.
\<close>

definition example_cells :: "key \<rightharpoonup> cell" where
  "example_cells = [(0, 0) \<mapsto> default_cell\<lparr>cell_roomId := Str ''R1''\<rparr>]"

definition example_state :: state where
  "example_state =
     \<lparr>cells = example_cells,
      rooms = [''R1'' \<mapsto> new_room ''R1'' [(0, 0)]],
      nextRoomId = CInt 2, editTarget = TargetRoom,
      selectedCellKey = Some (0, 0), selectedRect = Some (0, 0), staged = []\<rparr>"

text \<open>
  Closed forms of the loops over cells: \<open>ensure_on A\<close> is the cells after \<open>ensureCell\<close>
  ran on every key of \<open>A\<close>, \<open>link_on A v\<close> the cells after \<open>ensureCell\<close> ran on every key
  of \<open>A\<close> and \<open>roomId\<close> was set to \<open>v\<close> there.
\<close>

definition ensure_on :: "key set \<Rightarrow> (key \<rightharpoonup> cell) \<Rightarrow> (key \<rightharpoonup> cell)" where
  "ensure_on A m = (\<lambda>k. if k \<in> A then Some (ensured_cell (m k)) else m k)"

definition link_on :: "key set \<Rightarrow> jsval \<Rightarrow> (key \<rightharpoonup> cell) \<Rightarrow> (key \<rightharpoonup> cell)" where
  "link_on A v m = (\<lambda>k. if k \<in> A then Some ((ensured_cell (m k))\<lparr>cell_roomId := v\<rparr>) else m k)"

text \<open>
  What holds in every state of a tracker: every cell of the grid has a record with all its
  fields (the grid is painted when it is built and after the data is replaced), only
  cells of the grid are staged or selected, and the selected rectangle is the one of the
  selected cell.
\<close>

definition ok_at :: "(key \<rightharpoonup> cell) \<Rightarrow> key \<Rightarrow> bool" where
  "ok_at m k \<longleftrightarrow> (\<exists>cl. m k = Some cl \<and> filled cl)"

definition tracker_inv :: "config \<Rightarrow> state \<Rightarrow> bool" where
  "tracker_inv cfg s \<longleftrightarrow>
     (\<forall>k. in_grid cfg k \<longrightarrow> ok_at (cells s) k) \<and>
     (\<forall>k \<in> set (staged s). in_grid cfg k) \<and>
     (\<forall>k. selectedCellKey s = Some k \<longrightarrow> in_grid cfg k) \<and>
     selectedRect s = selectedCellKey s"




text \<open>The smallest grid, one cell, for the examples.\<close>

definition tiny_config :: config where
  "tiny_config = \<lparr>COLS = 1, ROWS = 1, SIZE = 18, GAP = 2, PAD = 18\<rparr>"

section \<open>Contiguity, as the specification words it\<close>

text \<open>
  These definitions follow the words of the specification, not the code: two cells are
  adjacent when their coordinates differ by exactly one unit on exactly one axis; the
  graph induced on a set of cells has the adjacent pairs of the set as edges; its
  connected components are the classes of the cells under "joined by a path inside the
  set".
\<close>

definition adjacent :: "key \<Rightarrow> key \<Rightarrow> bool" where
  "adjacent a b \<longleftrightarrow>
     (\<bar>fst a - fst b\<bar> = 1 \<and> snd a = snd b) \<or> (fst a = fst b \<and> \<bar>snd a - snd b\<bar> = 1)"

definition induced_edges :: "key set \<Rightarrow> (key \<times> key) set" where
  "induced_edges S = {(a, b). a \<in> S \<and> b \<in> S \<and> adjacent a b}"

definition connected_rel :: "key set \<Rightarrow> (key \<times> key) set" where
  "connected_rel S = {(a, b). a \<in> S \<and> b \<in> S \<and> (a, b) \<in> (induced_edges S)\<^sup>*}"

definition components :: "key set \<Rightarrow> key set set" where
  "components S = S // connected_rel S"

text \<open>The invariant of the search loop of \<open>isContiguous\<close>.\<close>

definition bfs_inv :: "key list \<Rightarrow> key \<Rightarrow> key list \<Rightarrow> key list \<Rightarrow> bool" where
  "bfs_inv keys start q seen \<longleftrightarrow>
     set q \<subseteq> set seen \<and> start \<in> set seen \<and> distinct seen \<and>
     set seen \<subseteq> {b. (start, b) \<in> (induced_edges (set keys))\<^sup>*} \<and>
     (\<forall>a b. a \<in> set seen \<and> a \<notin> set q \<and> (a, b) \<in> induced_edges (set keys) \<longrightarrow> b \<in> set seen)"

section \<open>Rooms and cells that belong together\<close>

text \<open>
  The two properties of the relation between cells and rooms: a \<open>roomId\<close> that is a
  string names a room that lists the cell, and two rooms have no cell in common.
\<close>

definition links_ok :: "(key \<rightharpoonup> cell) \<Rightarrow> (string \<rightharpoonup> room) \<Rightarrow> bool" where
  "links_ok cs rs \<longleftrightarrow>
     (\<forall>k cl rid. cs k = Some cl \<and> cell_roomId cl = Str rid \<longrightarrow>
        (\<exists>rm. rs rid = Some rm \<and> k \<in> set (room_cells rm)))"


text \<open>
  A well-formed store: besides \<open>links_ok\<close>, every cell that a room lists carries the
  identifier of that room, every room is stored under its own \<open>id\<close>, and every identifier
  is \<open>R\<close> followed by a number below the counter, the way \<open>createRoomFromStage\<close> makes
  them.
\<close>

definition members_linked :: "(key \<rightharpoonup> cell) \<Rightarrow> (string \<rightharpoonup> room) \<Rightarrow> bool" where
  "members_linked cs rs \<longleftrightarrow>
     (\<forall>rid rm k. rs rid = Some rm \<and> k \<in> set (room_cells rm) \<longrightarrow>
        (\<exists>cl. cs k = Some cl \<and> cell_roomId cl = Str rid))"

definition ids_ok :: "(string \<rightharpoonup> room) \<Rightarrow> int \<Rightarrow> bool" where
  "ids_ok rs n \<longleftrightarrow>
     (\<forall>rid rm. rs rid = Some rm \<longrightarrow>
        room_id rm = Str rid \<and> (\<exists>i. i < n \<and> rid = ''R'' @ show_int i))"

definition well_formed :: "(key \<rightharpoonup> cell) \<Rightarrow> (string \<rightharpoonup> room) \<Rightarrow> int \<Rightarrow> bool" where
  "well_formed cs rs n \<longleftrightarrow> links_ok cs rs \<and> members_linked cs rs \<and> ids_ok rs n"

text \<open>
  What well-formedness reads of a cell and of a room: the room a cell names, and the \<open>id\<close>
  and the members of a room.  Two states with the same readings and the same counter are
  \<open>same_skel\<close>.
\<close>

definition link_of :: "cell option \<Rightarrow> string option" where
  "link_of co = (case co of
                   None \<Rightarrow> None
                 | Some cl \<Rightarrow> (case cell_roomId cl of Str rid \<Rightarrow> Some rid | _ \<Rightarrow> None))"

definition room_shape :: "room option \<Rightarrow> (jsval \<times> key list) option" where
  "room_shape ro = map_option (\<lambda>rm. (room_id rm, room_cells rm)) ro"

definition same_skel :: "state \<Rightarrow> state \<Rightarrow> bool" where
  "same_skel s' s \<longleftrightarrow>
     (\<forall>k. link_of (cells s' k) = link_of (cells s k)) \<and>
     (\<forall>rid. room_shape (rooms s' rid) = room_shape (rooms s rid)) \<and>
     nextRoomId s' = nextRoomId s"

text \<open>
  The members of every room are keys that \<open>dissolveRoom\<close> reads back as they are.
\<close>

definition members_canon :: "(string \<rightharpoonup> room) \<Rightarrow> bool" where
  "members_canon rs \<longleftrightarrow>
     (\<forall>rid rm. rs rid = Some rm \<longrightarrow> (\<forall>k \<in> set (room_cells rm). reparse k = k))"

definition wf_store :: "store \<Rightarrow> bool" where
  "wf_store d \<longleftrightarrow>
     (\<exists>n. store_nextRoomId d = CInt n \<and> well_formed (store_cells d) (store_rooms d) n) \<and>
     members_canon (store_rooms d)"

definition wf_state :: "state \<Rightarrow> bool" where
  "wf_state s \<longleftrightarrow>
     (\<exists>n. nextRoomId s = CInt n \<and> well_formed (cells s) (rooms s) n) \<and>
     members_canon (rooms s)"

text \<open>
  A snapshot given to import or \<open>loadState\<close> is well-formed when its data is a well-formed
  store (a snapshot that import rejects changes nothing); every other event is
  unrestricted.
\<close>

definition wf_snapshot :: "snapshot \<Rightarrow> bool" where
  "wf_snapshot d \<longleftrightarrow>
     snap_cells d = Absent \<or> snap_rooms d = Absent \<or> (\<exists>st. data_of d = Some st \<and> wf_store st)"

fun wf_event :: "event \<Rightarrow> bool" where
  "wf_event (ImportFile obj) = (case blob_data obj of None \<Rightarrow> True | Some d \<Rightarrow> wf_snapshot d)"
| "wf_event (LoadState d) = wf_snapshot d"
| "wf_event ev = True"







section \<open>Properties of the viewport\<close>

lemma clamp_idem: "clamp (clamp n a b) a b = clamp n a b"
  by (simp add: clamp_def max_def min_def)

lemma clamp_range: "a \<le> b \<Longrightarrow> a \<le> clamp n a b \<and> clamp n a b \<le> b"
  by (simp add: clamp_def max_def min_def)

lemma grid_w_nonneg: "valid_config cfg \<Longrightarrow> 0 \<le> grid_w cfg"
proof -
  assume v: "valid_config cfg"
  have "0 \<le> PAD cfg * 2" "0 \<le> real_of_int (COLS cfg) * SIZE cfg"
    "0 \<le> (real_of_int (COLS cfg) - 1) * GAP cfg"
    using v by (simp_all add: valid_config_def)
  then have "0 \<le> PAD cfg * 2 + real_of_int (COLS cfg) * SIZE cfg
               + (real_of_int (COLS cfg) - 1) * GAP cfg"
    by linarith
  then show ?thesis
    unfolding grid_w_def by (simp add: ceiling_le_iff le_ceiling_iff)
qed

lemma grid_h_nonneg: "valid_config cfg \<Longrightarrow> 0 \<le> grid_h cfg"
proof -
  assume v: "valid_config cfg"
  have "0 \<le> PAD cfg * 2" "0 \<le> real_of_int (ROWS cfg) * SIZE cfg"
    "0 \<le> (real_of_int (ROWS cfg) - 1) * GAP cfg"
    using v by (simp_all add: valid_config_def)
  then have "0 \<le> PAD cfg * 2 + real_of_int (ROWS cfg) * SIZE cfg
               + (real_of_int (ROWS cfg) - 1) * GAP cfg"
    by linarith
  then show ?thesis
    unfolding grid_h_def by (simp add: ceiling_le_iff le_ceiling_iff)
qed

lemma grid_default: "grid_w default_config = 1034" "grid_h default_config = 1034"
  by (simp_all add: grid_w_def grid_h_def default_config_def)

lemma clampView_in_bounds:
  assumes "valid_config cfg"
  shows "in_bounds cfg (clampView cfg v)"
proof -
  have w: "0 \<le> grid_w cfg" and h: "0 \<le> grid_h cfg"
    using assms grid_w_nonneg grid_h_nonneg by auto
  have bw: "vbMaxW cfg \<le> vbMinW cfg" and bh: "vbMaxH cfg \<le> vbMinH cfg"
    using w h by (simp_all add: vbMaxW_def vbMinW_def vbMaxH_def vbMinH_def maxZoom_def)
  define w' where "w' = clamp (view_w v) (vbMaxW cfg) (vbMinW cfg)"
  define h' where "h' = clamp (view_h v) (vbMaxH cfg) (vbMinH cfg)"
  have rw: "vbMaxW cfg \<le> w' \<and> w' \<le> vbMinW cfg"
    unfolding w'_def using clamp_range [OF bw] by simp
  have rh: "vbMaxH cfg \<le> h' \<and> h' \<le> vbMinH cfg"
    unfolding h'_def using clamp_range [OF bh] by simp
  have xw: "(0::real) \<le> grid_w cfg - w'" and yh: "(0::real) \<le> grid_h cfg - h'"
    using rw rh by (simp_all add: vbMinW_def vbMinH_def)
  have rx: "0 \<le> clamp (view_x v) 0 (grid_w cfg - w') \<and>
            clamp (view_x v) 0 (grid_w cfg - w') \<le> grid_w cfg - w'"
    using clamp_range [OF xw] by simp
  have ry: "0 \<le> clamp (view_y v) 0 (grid_h cfg - h') \<and>
            clamp (view_y v) 0 (grid_h cfg - h') \<le> grid_h cfg - h'"
    using clamp_range [OF yh] by simp
  show ?thesis
    using rw rh rx ry
    by (simp add: in_bounds_def clampView_def Let_def w'_def h'_def
        vbMaxW_def vbMinW_def vbMaxH_def vbMinH_def)
qed

text \<open>
  C8.  After a pan move and after a pinch move (both end in \<open>updateView\<close>, that is in the
  clamp step) the window satisfies the clamp bounds: its width lies between
  \<open>canvasW / maxZoom\<close> and \<open>canvasW\<close>, its height between \<open>canvasH / maxZoom\<close> and
  \<open>canvasH\<close>, and \<open>0 \<le> x \<le> canvasW - w\<close>, \<open>0 \<le> y \<le> canvasH - h\<close>, for every grid
  configuration the geometry accepts.
\<close>

theorem viewport_mutation_in_bounds:
  assumes "valid_config cfg"
  shows "in_bounds cfg (clampView cfg v) \<and>
         in_bounds cfg (panMove cfg sv dxPx dyPx rw rh v) \<and>
         in_bounds cfg (pinchMove cfg sv startDist d mx my midPxX midPxY rw rh v)"
  using assms
  by (simp add: panMove_def pinchMove_def updateView_def Let_def split_def clampView_in_bounds)

theorem viewport_mutation_in_bounds_witness:
  "valid_config default_config \<and>
   clampView default_config \<lparr>view_x = 2000, view_y = -5, view_w = 50, view_h = 5000\<rparr>
     = \<lparr>view_x = 904.75, view_y = 0, view_w = 129.25, view_h = 1034\<rparr> \<and>
   in_bounds default_config
     (clampView default_config \<lparr>view_x = 2000, view_y = -5, view_w = 50, view_h = 5000\<rparr>) \<and>
   in_bounds default_config
     (panMove default_config \<lparr>view_x = 0, view_y = 0, view_w = 1034, view_h = 1034\<rparr>
        30 (-40) 800 600 \<lparr>view_x = 0, view_y = 0, view_w = 1034, view_h = 1034\<rparr>) \<and>
   in_bounds default_config
     (pinchMove default_config \<lparr>view_x = 0, view_y = 0, view_w = 1034, view_h = 1034\<rparr>
        100 400 517 517 400 300 800 600 \<lparr>view_x = 0, view_y = 0, view_w = 1034, view_h = 1034\<rparr>)"
proof -
  have v: "valid_config default_config"
    by (simp add: valid_config_def default_config_def)
  have c: "clampView default_config \<lparr>view_x = 2000, view_y = -5, view_w = 50, view_h = 5000\<rparr>
     = \<lparr>view_x = 904.75, view_y = 0, view_w = 129.25, view_h = 1034\<rparr>"
    by (simp add: clampView_def Let_def clamp_def grid_default vbMaxW_def vbMinW_def vbMaxH_def
        vbMinH_def maxZoom_def)
  have b1: "in_bounds default_config
     (clampView default_config \<lparr>view_x = 2000, view_y = -5, view_w = 50, view_h = 5000\<rparr>)"
    using viewport_mutation_in_bounds [OF v] by blast
  have b2: "in_bounds default_config
     (panMove default_config \<lparr>view_x = 0, view_y = 0, view_w = 1034, view_h = 1034\<rparr>
        30 (-40) 800 600 \<lparr>view_x = 0, view_y = 0, view_w = 1034, view_h = 1034\<rparr>)"
    using viewport_mutation_in_bounds [OF v] by blast
  have b3: "in_bounds default_config
     (pinchMove default_config \<lparr>view_x = 0, view_y = 0, view_w = 1034, view_h = 1034\<rparr>
        100 400 517 517 400 300 800 600 \<lparr>view_x = 0, view_y = 0, view_w = 1034, view_h = 1034\<rparr>)"
    using viewport_mutation_in_bounds [OF v] by blast
  show ?thesis
    using v c b1 b2 b3 by (intro conjI)
qed

text \<open>
  C9.  The clamp step is idempotent: clamping a window twice gives the window that clamping
  it once gives, for every window and every configuration.  The proof uses the order
  only (\<open>clamp_idem\<close>: \<open>max\<close> and \<open>min\<close>); the second pass computes the same bounds as the
  first, whatever the subtraction returns.
\<close>

theorem clampView_idempotent: "clampView cfg (clampView cfg v) = clampView cfg v"
  by (simp add: clampView_def Let_def clamp_idem)


section \<open>Properties of the annotation store\<close>

subsection \<open>Cells\<close>

lemma fill_cell_filled [simp]: "filled (fill_cell cl)"
  by (simp add: filled_def fill_cell_def Let_def)

lemma fill_cell_id [simp]: "filled cl \<Longrightarrow> fill_cell cl = cl"
  by (simp add: filled_def fill_cell_def Let_def)

lemma fill_cell_fields [simp]:
  "cell_c (fill_cell cl) = cell_c cl"
  "cell_n (fill_cell cl) = cell_n cl"
  by (simp_all add: fill_cell_def Let_def)

lemma fill_cell_roomId_Str [simp]:
  "cell_roomId (fill_cell cl) = Str rid \<longleftrightarrow> cell_roomId cl = Str rid"
  by (simp add: fill_cell_def Let_def)

lemma fill_cell_roomId_keep:
  "cell_roomId cl = Str rid \<Longrightarrow> cell_roomId (fill_cell cl) = Str rid"
  by simp

lemma fill_cell_truthy [simp]:
  "truthy (cell_roomId (fill_cell cl)) = truthy (cell_roomId cl)"
  by (simp add: fill_cell_def Let_def)

lemma filled_default [simp]: "filled default_cell"
  by (simp add: filled_def default_cell_def)

lemma ensured_cell_filled [simp]: "filled (ensured_cell co)"
  by (simp add: ensured_cell_def)

lemma ensured_cell_Some [simp]: "filled cl \<Longrightarrow> ensured_cell (Some cl) = cl"
  by (simp add: ensured_cell_def)

lemma ensured_cell_None [simp]: "ensured_cell None = default_cell"
  by (simp add: ensured_cell_def)

lemma fst_ensureCell [simp]: "fst (ensureCell k s) = ensured_cell (cells s k)"
  by (simp add: ensureCell_def Let_def)

lemma snd_ensureCell:
  "snd (ensureCell k s) = s\<lparr>cells := (cells s)(k \<mapsto> ensured_cell (cells s k))\<rparr>"
  by (simp add: ensureCell_def Let_def)

lemma ensureCell_noop: "cells s k = Some cl \<Longrightarrow> filled cl \<Longrightarrow> snd (ensureCell k s) = s"
  by (simp add: snd_ensureCell fun_upd_idem)

lemma getCurrentRoom_current:
  assumes "selectedCellKey s = Some k" "cells s k = Some cl" "cell_roomId cl = Str rid"
    "rid \<noteq> []" "rooms s rid = Some rm"
  shows "getCurrentRoom s = (Some (rid, rm), snd (ensureCell k s))"
  using assms
  by (simp add: getCurrentRoom_def getCurrentCell_def split_def Let_def roomById_def
      snd_ensureCell ensured_cell_def fill_cell_roomId_keep)

lemma example_state_simps [simp]:
  "selectedCellKey example_state = Some (0, 0)"
  "selectedRect example_state = Some (0, 0)"
  "editTarget example_state = TargetRoom"
  "staged example_state = []"
  "nextRoomId example_state = CInt 2"
  "cells example_state = example_cells"
  "rooms example_state = [''R1'' \<mapsto> new_room ''R1'' [(0, 0)]]"
  by (simp_all add: example_state_def)

lemma example_cells_simps [simp]:
  "example_cells (0, 0) = Some (default_cell\<lparr>cell_roomId := Str ''R1''\<rparr>)"
  by (simp add: example_cells_def)

subsection \<open>Renaming a room\<close>

text \<open>
  C10.  When the selected cell belongs to the room stored under \<open>rid\<close>, \<open>applyRoomName\<close>
  with the empty string leaves the rooms, and so the name of that room, as they were,
  and with a non-empty string it replaces the name of that room and nothing else in the
  rooms.
\<close>

theorem applyRoomName_empty_keeps_name:
  assumes "selectedCellKey s = Some k" "cells s k = Some cl" "cell_roomId cl = Str rid"
    "rid \<noteq> []" "rooms s rid = Some rm"
  shows "rooms (applyRoomName [] s) = rooms s \<and>
         (name \<noteq> [] \<longrightarrow>
            rooms (applyRoomName name s) = (rooms s)(rid \<mapsto> rm\<lparr>room_name := Str name\<rparr>))"
  using assms
  by (simp add: applyRoomName_def getCurrentRoom_current [OF assms] js_or_def snd_ensureCell
      fun_upd_idem)

theorem applyRoomName_empty_keeps_name_witness:
  "selectedCellKey example_state = Some (0, 0) \<and>
   cells example_state (0, 0) = Some (default_cell\<lparr>cell_roomId := Str ''R1''\<rparr>) \<and>
   cell_roomId (default_cell\<lparr>cell_roomId := Str ''R1''\<rparr>) = Str ''R1'' \<and>
   ''R1'' \<noteq> [] \<and>
   rooms example_state ''R1'' = Some (new_room ''R1'' [(0, 0)]) \<and>
   rooms (applyRoomName [] example_state) = rooms example_state \<and>
   ''Vault'' \<noteq> [] \<and>
   rooms (applyRoomName ''Vault'' example_state) =
     (rooms example_state)(''R1'' \<mapsto> (new_room ''R1'' [(0, 0)])\<lparr>room_name := Str ''Vault''\<rparr>)"
  using applyRoomName_empty_keeps_name
    [of example_state "(0, 0)" "default_cell\<lparr>cell_roomId := Str ''R1''\<rparr>" "''R1''"
        "new_room ''R1'' [(0, 0)]" "''Vault''"]
  by simp

subsection \<open>Import of a file without the two mappings\<close>




subsection \<open>Closed forms of the loops, and the invariant of the tracker\<close>


lemma ensure_on_empty [simp]: "ensure_on {} m = m"
  by (simp add: ensure_on_def)

lemma ensure_on_twice [simp]: "ensure_on A (ensure_on B m) = ensure_on (A \<union> B) m"
  by (auto simp: ensure_on_def fun_eq_iff)

lemma ensure_on_upd: "m(k \<mapsto> ensured_cell (m k)) = ensure_on {k} m"
  by (auto simp: ensure_on_def fun_eq_iff)

lemma snd_ensureCell_on: "snd (ensureCell k s) = s\<lparr>cells := ensure_on {k} (cells s)\<rparr>"
  by (simp add: snd_ensureCell ensure_on_upd)

lemma state_cells_same [simp]: "s\<lparr>cells := cells s\<rparr> = s"
  by simp

lemma repaint_on:
  "repaint cfg k s = s\<lparr>cells := ensure_on ({k} \<inter> Collect (in_grid cfg)) (cells s)\<rparr>"
  by (simp add: repaint_def rectForKey_def setVisual_def snd_ensureCell_on)

lemma fold_repaint_on:
  "fold (repaint cfg) ks s = s\<lparr>cells := ensure_on (set ks \<inter> Collect (in_grid cfg)) (cells s)\<rparr>"
proof (induction ks arbitrary: s)
  case Nil
  then show ?case by simp
next
  case (Cons k ks)
  have e: "(set ks \<inter> Collect (in_grid cfg)) \<union> ({k} \<inter> Collect (in_grid cfg))
        = set (k # ks) \<inter> Collect (in_grid cfg)"
    by auto
  have "fold (repaint cfg) (k # ks) s = fold (repaint cfg) ks (repaint cfg k s)"
    by simp
  also have "\<dots> = (repaint cfg k s)\<lparr>cells :=
      ensure_on (set ks \<inter> Collect (in_grid cfg)) (cells (repaint cfg k s))\<rparr>"
    by (rule Cons.IH)
  also have "\<dots> = s\<lparr>cells := ensure_on (set (k # ks) \<inter> Collect (in_grid cfg)) (cells s)\<rparr>"
    using e by (simp add: repaint_on)
  finally show ?case .
qed

lemma in_grid_grid_keys: "k \<in> set (grid_keys cfg) \<longleftrightarrow> in_grid cfg k"
proof -
  obtain c r where k: "k = (c, r)" by (cases k)
  show ?thesis
    unfolding k by (force simp: grid_keys_def in_grid_def key_def)
qed

lemma rebuildAll_on: "rebuildAll cfg s = s\<lparr>cells := ensure_on (Collect (in_grid cfg)) (cells s)\<rparr>"
proof -
  have "set (grid_keys cfg) \<inter> Collect (in_grid cfg) = Collect (in_grid cfg)"
    using in_grid_grid_keys by auto
  then show ?thesis by (simp add: rebuildAll_def fold_repaint_on)
qed

lemma getCurrentCell_on:
  "snd (getCurrentCell s) = s\<lparr>cells := ensure_on (set_option (selectedCellKey s)) (cells s)\<rparr>"
  by (simp add: getCurrentCell_def split_def snd_ensureCell_on split: option.splits)

lemma snd_getCurrentRoom: "snd (getCurrentRoom s) = snd (getCurrentCell s)"
  by (simp add: getCurrentRoom_def split_def Let_def split: option.splits jsval.splits)

lemma refreshButtons_on:
  "refreshButtons s = s\<lparr>cells := ensure_on (set_option (selectedCellKey s)) (cells s)\<rparr>"
  by (simp add: refreshButtons_def snd_getCurrentRoom getCurrentCell_on)

lemma clearStage_on:
  "clearStage cfg s =
     s\<lparr>cells := ensure_on (set (staged s) \<inter> Collect (in_grid cfg)) (cells s), staged := []\<rparr>"
  by (simp add: clearStage_def fold_repaint_on)

lemma ensured_cell_link [simp]:
  "v \<noteq> Undefined \<Longrightarrow> ensured_cell (Some ((ensured_cell co)\<lparr>cell_roomId := v\<rparr>)) = (ensured_cell co)\<lparr>cell_roomId := v\<rparr>"
proof -
  assume "v \<noteq> Undefined"
  moreover have "filled (ensured_cell co)" by simp
  ultimately have "filled ((ensured_cell co)\<lparr>cell_roomId := v\<rparr>)"
    by (simp add: filled_def)
  then show ?thesis by simp
qed

lemma ensured_cell_idem [simp]: "ensured_cell (Some (ensured_cell co)) = ensured_cell co"
  by simp

lemma releaseCell_on:
  "releaseCell cfg k s = s\<lparr>cells := link_on {reparse k} Null (cells s)\<rparr>"
  by (auto simp: releaseCell_def split_def Let_def setVisual_def snd_ensureCell_on link_on_def
      ensure_on_def fun_eq_iff split: option.splits)

lemma assignRoom_on: "assignRoom cfg rid k s = s\<lparr>cells := link_on {k} (Str rid) (cells s)\<rparr>"
  by (auto simp: assignRoom_def split_def Let_def repaint_on snd_ensureCell_on link_on_def
      ensure_on_def fun_eq_iff)

lemma link_on_twice:
  "v \<noteq> Undefined \<Longrightarrow> link_on A v (link_on B v m) = link_on (A \<union> B) v m"
  by (auto simp: link_on_def fun_eq_iff)

lemma link_on_empty [simp]: "link_on {} v m = m"
  by (simp add: link_on_def)

lemma fold_releaseCell_on:
  "fold (releaseCell cfg) ks s = s\<lparr>cells := link_on (reparse ` set ks) Null (cells s)\<rparr>"
proof (induction ks arbitrary: s)
  case Nil
  then show ?case by simp
next
  case (Cons k ks)
  have e: "reparse ` set ks \<union> {reparse k} = reparse ` set (k # ks)" by auto
  have "fold (releaseCell cfg) (k # ks) s = fold (releaseCell cfg) ks (releaseCell cfg k s)"
    by simp
  also have "\<dots> = (releaseCell cfg k s)\<lparr>cells :=
      link_on (reparse ` set ks) Null (cells (releaseCell cfg k s))\<rparr>"
    by (rule Cons.IH)
  also have "\<dots> = s\<lparr>cells := link_on (reparse ` set (k # ks)) Null (cells s)\<rparr>"
    unfolding e [symmetric] by (simp add: releaseCell_on link_on_twice)
  finally show ?case .
qed

lemma fold_assignRoom_on:
  "fold (assignRoom cfg rid) ks s = s\<lparr>cells := link_on (set ks) (Str rid) (cells s)\<rparr>"
proof (induction ks arbitrary: s)
  case Nil
  then show ?case by simp
next
  case (Cons k ks)
  have e: "set ks \<union> {k} = set (k # ks)" by auto
  have "fold (assignRoom cfg rid) (k # ks) s = fold (assignRoom cfg rid) ks (assignRoom cfg rid k s)"
    by simp
  also have "\<dots> = (assignRoom cfg rid k s)\<lparr>cells :=
      link_on (set ks) (Str rid) (cells (assignRoom cfg rid k s))\<rparr>"
    by (rule Cons.IH)
  also have "\<dots> = s\<lparr>cells := link_on (set (k # ks)) (Str rid) (cells s)\<rparr>"
    using e by (simp add: assignRoom_on link_on_twice)
  finally show ?case .
qed



lemma ensured_cell_defined [simp]:
  "cell_icon (ensured_cell co) \<noteq> Undefined"
  "cell_roomId (ensured_cell co) \<noteq> Undefined"
  using ensured_cell_filled [of co] by (simp_all add: filled_def)

lemma ok_at_ensure_on [simp]: "ok_at (ensure_on A m) k \<longleftrightarrow> k \<in> A \<or> ok_at m k"
  by (simp add: ok_at_def ensure_on_def)

lemma ok_at_link_on [simp]:
  "v \<noteq> Undefined \<Longrightarrow> ok_at (link_on A v m) k \<longleftrightarrow> k \<in> A \<or> ok_at m k"
  by (auto simp: ok_at_def link_on_def filled_def)

lemma ok_at_upd [simp]:
  "ok_at (m(k' \<mapsto> cl)) k \<longleftrightarrow> (if k = k' then filled cl else ok_at m k)"
  by (simp add: ok_at_def)

lemma ensure_on_ok: "(\<forall>k \<in> A. ok_at m k) \<Longrightarrow> ensure_on A m = m"
  by (auto simp: ok_at_def ensure_on_def fun_eq_iff)

lemma filled_upd [simp]:
  "filled (cl\<lparr>cell_c := v\<rparr>) = filled cl"
  "filled (cl\<lparr>cell_n := v\<rparr>) = filled cl"
  "filled (cl\<lparr>cell_icon := v\<rparr>) = (v \<noteq> Undefined \<and> cell_roomId cl \<noteq> Undefined)"
  "filled (cl\<lparr>cell_roomId := v\<rparr>) = (v \<noteq> Undefined \<and> cell_icon cl \<noteq> Undefined)"
  by (auto simp: filled_def)

lemma js_or_Str [simp]: "js_or (Str a) (Str b) \<noteq> Undefined"
  by (simp add: js_or_def)

lemma inv_init: "tracker_inv cfg (init cfg d)"
  by (simp add: tracker_inv_def init_def rebuildAll_on refreshButtons_on)

lemma inv_selectCell: "tracker_inv cfg s \<Longrightarrow> in_grid cfg k \<Longrightarrow> tracker_inv cfg (selectCell k s)"
  by (simp add: tracker_inv_def selectCell_def split_def Let_def refreshButtons_on snd_ensureCell_on)

lemma inv_toggleStage: "tracker_inv cfg s \<Longrightarrow> tracker_inv cfg (toggleStage cfg k s)"
  by (auto simp: tracker_inv_def toggleStage_def rectForKey_def setVisual_def snd_ensureCell_on)

lemma inv_onCellLeave: "tracker_inv cfg s \<Longrightarrow> tracker_inv cfg (onCellLeave k s)"
  by (simp add: tracker_inv_def onCellLeave_def setVisual_def snd_ensureCell_on)

lemma inv_clearStage: "tracker_inv cfg s \<Longrightarrow> tracker_inv cfg (clearStage cfg s)"
  by (simp add: tracker_inv_def clearStage_on)

lemma inv_applyColor: "tracker_inv cfg s \<Longrightarrow> tracker_inv cfg (applyColor cfg v s)"
  by (auto simp: tracker_inv_def applyColor_def split_def Let_def getCurrentCell_on snd_getCurrentRoom
      fold_repaint_on setVisual_def snd_ensureCell_on getCurrentCell_def
      split: option.splits prod.splits)

lemma inv_applyIcon: "tracker_inv cfg s \<Longrightarrow> tracker_inv cfg (applyIcon v s)"
  by (auto simp: tracker_inv_def applyIcon_def split_def Let_def getCurrentCell_on snd_getCurrentRoom
      getCurrentCell_def snd_ensureCell_on
      split: option.splits prod.splits)

lemma inv_applyNotes: "tracker_inv cfg s \<Longrightarrow> tracker_inv cfg (applyNotes v s)"
  by (auto simp: tracker_inv_def applyNotes_def split_def Let_def getCurrentCell_on snd_getCurrentRoom
      getCurrentCell_def snd_ensureCell_on
      split: option.splits prod.splits)

lemma inv_applyRoomName: "tracker_inv cfg s \<Longrightarrow> tracker_inv cfg (applyRoomName v s)"
  by (auto simp: tracker_inv_def applyRoomName_def split_def Let_def getCurrentCell_on snd_getCurrentRoom
      split: option.splits prod.splits)

lemma inv_applyRoomKind: "tracker_inv cfg s \<Longrightarrow> tracker_inv cfg (applyRoomKind v s)"
  by (auto simp: tracker_inv_def applyRoomKind_def split_def Let_def getCurrentCell_on snd_getCurrentRoom
      split: option.splits prod.splits)

lemma inv_clearSelectedCell: "tracker_inv cfg s \<Longrightarrow> tracker_inv cfg (snd (clearSelectedCell s))"
  by (auto simp: tracker_inv_def clearSelectedCell_def split_def Let_def getCurrentCell_on
      getCurrentCell_def snd_ensureCell_on setVisual_def
      split: option.splits prod.splits)

lemma anyInRoom_noop:
  "(\<forall>k \<in> set ks. ok_at (cells s) k) \<Longrightarrow> snd (anyInRoom ks s) = s"
proof (induction ks arbitrary: s)
  case Nil
  then show ?case by simp
next
  case (Cons k ks)
  have "snd (ensureCell k s) = s"
    using Cons.prems by (simp add: snd_ensureCell_on ensure_on_ok)
  then show ?case
    using Cons by (simp add: split_def Let_def)
qed

lemma inv_resetSelection:
  "(\<forall>k \<in> set (staged s). in_grid cfg k) \<Longrightarrow> tracker_inv cfg (resetSelection cfg s)"
  by (simp add: tracker_inv_def resetSelection_def Let_def rebuildAll_on clearStage_on refreshButtons_on)

lemma inv_resetSelection_upd:
  assumes "tracker_inv cfg s" "staged t = staged s"
  shows "tracker_inv cfg (resetSelection cfg t)"
  using assms by (intro inv_resetSelection) (simp add: tracker_inv_def)

lemma inv_doImport:
  "tracker_inv cfg s \<Longrightarrow> snd (doImport cfg obj s) = Some s' \<Longrightarrow> tracker_inv cfg s'"
  by (auto simp: doImport_def install_def Let_def split: option.splits if_splits
      intro: inv_resetSelection_upd)

lemma inv_doWipe: "tracker_inv cfg s \<Longrightarrow> tracker_inv cfg (doWipe cfg b s)"
  by (auto simp: doWipe_def install_def intro: inv_resetSelection_upd)

lemma inv_loadState:
  "tracker_inv cfg s \<Longrightarrow> loadState cfg d s = Some s' \<Longrightarrow> tracker_inv cfg s'"
  by (auto simp: loadState_def install_def tracker_inv_def rebuildAll_on
      split: option.splits if_splits)

lemma inv_dissolveRoom: "tracker_inv cfg s \<Longrightarrow> tracker_inv cfg (dissolveRoom cfg v s)"
  by (auto simp: dissolveRoom_def Let_def tracker_inv_def fold_releaseCell_on refreshButtons_on
      split: option.splits jsval.splits)

lemma inv_getCurrentRoom: "tracker_inv cfg s \<Longrightarrow> tracker_inv cfg (snd (getCurrentRoom s))"
  by (simp add: snd_getCurrentRoom getCurrentCell_on tracker_inv_def)

lemma inv_deleteCurrentRoom: "tracker_inv cfg s \<Longrightarrow> tracker_inv cfg (deleteCurrentRoom cfg b s)"
proof -
  assume i: "tracker_inv cfg s"
  obtain ro s1 where g: "getCurrentRoom s = (ro, s1)" by (cases "getCurrentRoom s")
  then have "tracker_inv cfg s1" using inv_getCurrentRoom [OF i] by simp
  then show ?thesis
    by (simp add: deleteCurrentRoom_def g inv_dissolveRoom split: option.splits)
qed

lemma dissolveRoomBtn_eq: "dissolveRoomBtn cfg b s = deleteCurrentRoom cfg b s"
  by (simp add: dissolveRoomBtn_def deleteCurrentRoom_def)

lemma inv_onEscape: "tracker_inv cfg s \<Longrightarrow> tracker_inv cfg (onEscape cfg s)"
  by (simp add: onEscape_def Let_def split_def clearStage_on getCurrentCell_on
      refreshButtons_on tracker_inv_def)

lemma inv_onRoomListClick: "tracker_inv cfg s \<Longrightarrow> tracker_inv cfg (onRoomListClick cfg rid s)"
proof -
  assume i: "tracker_inv cfg s"
  have e: "\<And>t. tracker_inv cfg t \<Longrightarrow> tracker_inv cfg (refreshButtons (t\<lparr>editTarget := TargetRoom\<rparr>))"
    by (simp add: tracker_inv_def refreshButtons_on)
  show ?thesis
    using i
    by (auto simp: onRoomListClick_def Let_def rectForKey_def intro!: e inv_selectCell
        split: option.splits list.splits)
qed

lemma roomById_upd [simp]:
  "roomById v (s\<lparr>cells := m\<rparr>) = roomById v s"
  "roomById v (s\<lparr>nextRoomId := n\<rparr>) = roomById v s"
  "roomById v (s\<lparr>editTarget := e\<rparr>) = roomById v s"
  "roomById v (s\<lparr>selectedCellKey := ko\<rparr>) = roomById v s"
  "roomById v (s\<lparr>selectedRect := ko\<rparr>) = roomById v s"
  "roomById v (s\<lparr>staged := ks\<rparr>) = roomById v s"
  by (simp_all add: roomById_def split: jsval.splits)

lemma refreshButtons_ok:
  "(\<forall>k. selectedCellKey s = Some k \<longrightarrow> ok_at (cells s) k) \<Longrightarrow> refreshButtons s = s"
  by (cases "selectedCellKey s") (simp_all add: refreshButtons_on ensure_on_ok)

lemma selectCell_ok:
  assumes "cells s k = Some cl" "filled cl"
  shows "selectCell k s =
     s\<lparr>selectedCellKey := Some k, selectedRect := Some k,
       editTarget := (if roomById (cell_roomId cl) s \<noteq> None then TargetRoom else TargetCell)\<rparr>"
proof -
  have e: "ensure_on {k} (cells s) = cells s"
    using assms by (intro ensure_on_ok) (simp add: ok_at_def)
  show ?thesis
    using assms
    by (simp add: selectCell_def split_def Let_def snd_ensureCell_on e refreshButtons_on)
qed


lemma createRoomFromStage_created:
  assumes i: "tracker_inv cfg s" and ne: "staged s \<noteq> []" and c: "isContiguous (staged s)"
    and f: "\<not> truthy (fst (anyInRoom (staged s) s))"
  shows "createRoomFromStage cfg s =
     (Inr (''R'' @ count_text (nextRoomId s)),
      s\<lparr>cells := link_on (set (staged s)) (Str (''R'' @ count_text (nextRoomId s))) (cells s),
        rooms := (rooms s)(''R'' @ count_text (nextRoomId s) \<mapsto>
                  new_room (''R'' @ count_text (nextRoomId s)) (staged s)),
        nextRoomId := count_next (nextRoomId s),
        staged := [],
        selectedCellKey := Some (hd (sort_key key_text (staged s))),
        selectedRect := Some (hd (sort_key key_text (staged s))),
        editTarget := TargetRoom\<rparr>)"
proof -
  define rid where "rid = ''R'' @ count_text (nextRoomId s)"
  define rm where "rm = new_room rid (staged s)"
  define k1 where "k1 = hd (sort_key key_text (staged s))"
  have cs: "room_cells rm = sort_key key_text (staged s)"
    by (simp add: rm_def new_room_def)
  have a: "snd (anyInRoom (staged s) s) = s"
    using i by (intro anyInRoom_noop) (auto simp: tracker_inv_def)
  then have a': "anyInRoom (staged s) s = (fst (anyInRoom (staged s) s), s)"
    by (cases "anyInRoom (staged s) s") simp
  define s3 where "s3 = s\<lparr>nextRoomId := count_next (nextRoomId s), rooms := (rooms s)(rid \<mapsto> rm)\<rparr>"
  define s4 where "s4 = fold (assignRoom cfg rid) (room_cells rm) s3"
  have s4: "s4 = s3\<lparr>cells := link_on (set (staged s)) (Str rid) (cells s)\<rparr>"
    by (simp add: s4_def fold_assignRoom_on cs s3_def)
  have ok4: "\<And>k. in_grid cfg k \<Longrightarrow> ok_at (cells s4) k"
    using i by (auto simp: s4 tracker_inv_def)
  have "ensure_on (set (staged s4) \<inter> Collect (in_grid cfg)) (cells s4) = cells s4"
    using ok4 by (intro ensure_on_ok) simp
  then have s5: "clearStage cfg s4 = s4\<lparr>staged := []\<rparr>"
    by (simp add: clearStage_on)
  have "k1 \<in> set (sort_key key_text (staged s))"
    unfolding k1_def using ne by (intro hd_in_set) (simp add: set_empty [symmetric] del: set_empty)
  then have k1: "k1 \<in> set (staged s)" by simp
  then have g1: "in_grid cfg k1" using i by (simp add: tracker_inv_def)
  from ok4 [OF g1] obtain cl where cl: "cells s4 k1 = Some cl" "filled cl"
    by (auto simp: ok_at_def)
  have r: "rectForKey cfg k1 = Some k1"
    using g1 by (simp add: rectForKey_def)
  define s6 where "s6 = selectCell k1 (s4\<lparr>staged := []\<rparr>)"
  have s6: "s6 = s4\<lparr>staged := [], selectedCellKey := Some k1, selectedRect := Some k1,
      editTarget := (if roomById (cell_roomId cl) (s4\<lparr>staged := []\<rparr>) \<noteq> None
                     then TargetRoom else TargetCell)\<rparr>"
    unfolding s6_def using cl by (subst selectCell_ok [where cl = cl]) simp_all
  have s7: "refreshButtons (s6\<lparr>editTarget := TargetRoom\<rparr>) = s6\<lparr>editTarget := TargetRoom\<rparr>"
    using cl by (intro refreshButtons_ok) (simp add: s6 ok_at_def)
  have s3': "s\<lparr>nextRoomId := count_next (nextRoomId s),
      rooms := (rooms (s\<lparr>nextRoomId := count_next (nextRoomId s)\<rparr>))(rid \<mapsto> rm)\<rparr> = s3"
    by (simp add: s3_def)
  have "createRoomFromStage cfg s = (Inr rid, refreshButtons (s6\<lparr>editTarget := TargetRoom\<rparr>))"
    unfolding createRoomFromStage_def Let_def
    apply (subst a')
    using ne c f
    apply (simp only: if_False if_True not_not prod.case simp_thms)
    apply (fold rid_def)
    apply (fold rm_def)
    apply (simp only: s3' s4_def [symmetric] s5)
    apply (simp only: cs)
    apply (fold k1_def)
    apply (simp only: r option.case s6_def [symmetric])
    done
  then have "createRoomFromStage cfg s = (Inr rid, s6\<lparr>editTarget := TargetRoom\<rparr>)"
    by (simp only: s7)
  also have "s6\<lparr>editTarget := TargetRoom\<rparr> =
      s\<lparr>cells := link_on (set (staged s)) (Str rid) (cells s),
        rooms := (rooms s)(rid \<mapsto> rm),
        nextRoomId := count_next (nextRoomId s),
        staged := [],
        selectedCellKey := Some k1,
        selectedRect := Some k1,
        editTarget := TargetRoom\<rparr>"
    by (simp add: s6 s4 s3_def)
  finally show ?thesis
    unfolding rm_def rid_def k1_def .
qed

lemma inv_createRoomFromStage: "tracker_inv cfg s \<Longrightarrow> tracker_inv cfg (snd (createRoomFromStage cfg s))"
proof -
  assume i: "tracker_inv cfg s"
  have a: "snd (anyInRoom (staged s) s) = s"
    using i by (intro anyInRoom_noop) (auto simp: tracker_inv_def)
  show ?thesis
  proof (cases "staged s \<noteq> [] \<and> isContiguous (staged s) \<and> \<not> truthy (fst (anyInRoom (staged s) s))")
    case True
    then have k: "hd (sort_key key_text (staged s)) \<in> set (sort_key key_text (staged s))"
      by (intro hd_in_set) (simp add: set_empty [symmetric] del: set_empty)
    have g: "in_grid cfg (hd (sort_key key_text (staged s)))"
      using i k by (simp add: tracker_inv_def)
    have e: "createRoomFromStage cfg s = (Inr (''R'' @ count_text (nextRoomId s)),
      s\<lparr>cells := link_on (set (staged s)) (Str (''R'' @ count_text (nextRoomId s))) (cells s),
        rooms := (rooms s)(''R'' @ count_text (nextRoomId s) \<mapsto>
                  new_room (''R'' @ count_text (nextRoomId s)) (staged s)),
        nextRoomId := count_next (nextRoomId s),
        staged := [],
        selectedCellKey := Some (hd (sort_key key_text (staged s))),
        selectedRect := Some (hd (sort_key key_text (staged s))),
        editTarget := TargetRoom\<rparr>)"
      using i True by (intro createRoomFromStage_created) simp_all
    show ?thesis
      unfolding e using i g by (simp add: tracker_inv_def)
  next
    case False
    then show ?thesis
      using i a by (auto simp: createRoomFromStage_def Let_def split_def)
  qed
qed

lemma inv_step: "tracker_inv cfg s \<Longrightarrow> tracker_inv cfg (step cfg ev s)"
proof (cases ev)
  case (ImportFile obj)
  assume "tracker_inv cfg s"
  then show ?thesis
    using inv_doImport [of cfg s obj] ImportFile by (simp split: option.splits)
next
  case (LoadState d)
  assume "tracker_inv cfg s"
  then show ?thesis
    using inv_loadState [of cfg s d] LoadState by (simp split: option.splits)
qed (simp_all add: onCellClick_def onEnter_def inv_toggleStage inv_selectCell inv_applyColor
      inv_onCellLeave
      inv_applyIcon inv_applyNotes inv_applyRoomName inv_applyRoomKind inv_createRoomFromStage
      dissolveRoomBtn_eq inv_deleteCurrentRoom inv_clearSelectedCell inv_doWipe
      inv_onEscape inv_onRoomListClick inv_clearStage)

lemma reachable_inv: "reachable cfg s \<Longrightarrow> tracker_inv cfg s"
  by (induction rule: reachable.induct) (auto intro: inv_init inv_step)



subsection \<open>Doubles\<close>

text \<open>Integers of magnitude up to \<open>2^53\<close> are doubles, and so are the coordinates of a grid.\<close>

lemma expo_small: "m < 2 ^ 53 \<Longrightarrow> expo m = 0"
  by (simp add: expo.simps)

lemma round_nat_small: "m \<le> 2 ^ 53 \<Longrightarrow> round_nat m = m"
proof (cases "m < 2 ^ 53")
  case True
  then show ?thesis by (simp add: round_nat_def expo_small)
next
  case False
  assume "m \<le> 2 ^ 53"
  with False have m: "m = 2 ^ 53" by simp
  have "expo (2 ^ 53) = Suc (expo (2 ^ 52))"
    by (subst expo.simps) simp
  then have e: "expo (2 ^ 53) = 1"
    by (simp add: expo_small)
  show ?thesis
    unfolding m round_nat_def e by simp
qed

lemma dbl_exact: "\<bar>i\<bar> \<le> 2 ^ 53 \<Longrightarrow> dbl i = i"
proof -
  assume a: "\<bar>i\<bar> \<le> 2 ^ 53"
  have "nat \<bar>i\<bar> \<le> nat (2 ^ 53)"
    using a by (intro nat_mono)
  then have n: "nat \<bar>i\<bar> \<le> 2 ^ 53"
    by simp
  show ?thesis
  proof (cases "i < 0")
    case True
    then have "nat (- i) = nat \<bar>i\<bar>" by simp
    then show ?thesis
      using True n by (simp add: dbl_def round_nat_small)
  next
    case False
    then have "nat i = nat \<bar>i\<bar>" by simp
    then show ?thesis
      using False n by (simp add: dbl_def round_nat_small)
  qed
qed


lemma dbl_2 [simp]: "dbl 2 = 2"
  by (simp add: dbl_exact)

lemma reparse_00 [simp]: "reparse (0, 0) = (0, 0)"
  by (simp add: reparse_def key_def dbl_exact)

text \<open>
  Above \<open>2^53\<close> not every integer is a double: the key \<open>9007199254740993,0\<close> is read back
  as \<open>9007199254740992,0\<close>.
\<close>

lemma expo_rounded: "expo 9007199254740993 = 1"
  by (subst expo.simps) (simp add: expo_small)

lemma round_nat_rounded: "round_nat 9007199254740993 = 9007199254740992"
  unfolding round_nat_def expo_rounded Let_def by simp

lemma dbl_rounded: "dbl 9007199254740993 = 9007199254740992"
  unfolding dbl_def by (simp add: round_nat_rounded)

lemma reparse_rounded: "reparse (9007199254740993, 0) = (9007199254740992, 0)"
  by (simp add: reparse_def key_def dbl_rounded dbl_exact)

subsection \<open>Decimal text: room identifiers and key strings are injective\<close>


lemma digit_char_inj: "a < 10 \<Longrightarrow> b < 10 \<Longrightarrow> digit_char a = digit_char b \<Longrightarrow> a = b"
proof -
  assume a: "a < 10" and b: "b < 10" and e: "digit_char a = digit_char b"
  have "a \<in> {0, 1, 2, 3, 4, 5, 6, 7, 8, 9}" using a by auto
  moreover have "b \<in> {0, 1, 2, 3, 4, 5, 6, 7, 8, 9}" using b by auto
  ultimately show ?thesis
    using e by (auto simp: digit_char_def)
qed

lemma digit_char_set: "d < 10 \<Longrightarrow> digit_char d \<in> set ''0123456789''"
  unfolding digit_char_def by (intro nth_mem) simp

lemma show_nat_nonempty: "show_nat n \<noteq> []"
  by (subst show_nat.simps) simp

lemma show_nat_digits: "set (show_nat n) \<subseteq> set ''0123456789''"
proof (induction n rule: show_nat.induct)
  case (1 n)
  show ?case
  proof (cases "n < 10")
    case True
    then show ?thesis
      using digit_char_set [of n] by (subst show_nat.simps) simp
  next
    case False
    have "n mod 10 < 10" by simp
    then have "digit_char (n mod 10) \<in> set ''0123456789''"
      by (rule digit_char_set)
    then show ?thesis
      using False 1 by (subst show_nat.simps) simp
  qed
qed

lemma show_nat_inj: "show_nat m = show_nat n \<Longrightarrow> m = n"
proof (induction m arbitrary: n rule: show_nat.induct)
  case (1 m)
  show ?case
  proof (cases "m < 10")
    case m: True
    show ?thesis
    proof (cases "n < 10")
      case True
      then show ?thesis
        using m 1(2) digit_char_inj by (simp add: show_nat.simps [of m] show_nat.simps [of n])
    next
      case False
      then have "length (show_nat n) \<ge> 2"
        using show_nat_nonempty [of "n div 10"]
        by (subst show_nat.simps) (simp add: Suc_le_eq)
      moreover have "length (show_nat m) = 1"
        using m by (subst show_nat.simps) simp
      ultimately show ?thesis using 1(2) by simp
    qed
  next
    case m: False
    show ?thesis
    proof (cases "n < 10")
      case True
      have "length (show_nat m) \<ge> 2"
        using m show_nat_nonempty [of "m div 10"]
        by (subst show_nat.simps) (simp add: Suc_le_eq)
      moreover have "length (show_nat n) = 1"
        using True by (subst show_nat.simps) simp
      ultimately show ?thesis using 1(2) by simp
    next
      case False
      have e: "show_nat (m div 10) @ [digit_char (m mod 10)]
             = show_nat (n div 10) @ [digit_char (n mod 10)]"
        using 1(2) m False by (simp add: show_nat.simps [of m] show_nat.simps [of n])
      then have "show_nat (m div 10) = show_nat (n div 10)"
        and d: "digit_char (m mod 10) = digit_char (n mod 10)"
        by simp_all
      then have "m div 10 = n div 10"
        using 1(1) m by simp
      moreover have "m mod 10 = n mod 10"
        using d by (intro digit_char_inj) simp_all
      ultimately show ?thesis
        by (metis div_mult_mod_eq)
    qed
  qed
qed

lemma show_int_inj: "show_int i = show_int j \<Longrightarrow> i = j"
proof -
  assume e: "show_int i = show_int j"
  have nd: "\<And>n. CHR ''-'' \<notin> set (show_nat n)"
    using show_nat_digits by fastforce
  have hd: "\<And>n. hd (show_nat n) \<noteq> CHR ''-''"
    using nd show_nat_nonempty by (metis hd_in_set)
  show ?thesis
  proof (cases "i < 0")
    case i: True
    show ?thesis
    proof (cases "j < 0")
      case True
      then have "show_nat (nat (- i)) = show_nat (nat (- j))"
        using e i by (simp add: show_int_def)
      then have "nat (- i) = nat (- j)" by (rule show_nat_inj)
      then show ?thesis using i True by simp
    next
      case False
      then have "CHR ''-'' # show_nat (nat (- i)) = show_nat (nat j)"
        using e i by (simp add: show_int_def)
      then have "hd (show_nat (nat j)) = CHR ''-''"
        by (metis list.sel(1))
      then show ?thesis using hd by simp
    qed
  next
    case i: False
    show ?thesis
    proof (cases "j < 0")
      case True
      then have "show_nat (nat i) = CHR ''-'' # show_nat (nat (- j))"
        using e i by (simp add: show_int_def)
      then have "hd (show_nat (nat i)) = CHR ''-''"
        by (metis list.sel(1))
      then show ?thesis using hd by simp
    next
      case False
      then have "show_nat (nat i) = show_nat (nat j)"
        using e i by (simp add: show_int_def)
      then have "nat i = nat j" by (rule show_nat_inj)
      then show ?thesis using i False by simp
    qed
  qed
qed

lemma show_int_no_comma: "CHR '','' \<notin> set (show_int i)"
proof -
  have "\<And>n. CHR '','' \<notin> set (show_nat n)"
    using show_nat_digits by fastforce
  then show ?thesis by (simp add: show_int_def)
qed

lemma split_at_separator:
  "c \<notin> set xs \<Longrightarrow> c \<notin> set xs' \<Longrightarrow> xs @ c # ys = xs' @ c # ys' \<Longrightarrow> xs = xs' \<and> ys = ys'"
proof (induction xs arbitrary: xs')
  case Nil
  then show ?case by (cases xs') auto
next
  case (Cons x xs)
  then show ?case by (cases xs') auto
qed

lemma key_text_inj: "key_text a = key_text b \<Longrightarrow> a = b"
proof -
  assume "key_text a = key_text b"
  then have "show_int (fst a) @ CHR '','' # show_int (snd a)
           = show_int (fst b) @ CHR '','' # show_int (snd b)"
    by (simp add: key_text_def)
  then have "show_int (fst a) = show_int (fst b) \<and> show_int (snd a) = show_int (snd b)"
    using show_int_no_comma by (intro split_at_separator) auto
  then show ?thesis
    using show_int_inj by (simp add: prod_eq_iff)
qed

text \<open>Reading the text of a key gives the key.\<close>

lemma digit_val_digit_char: "d < 10 \<Longrightarrow> digit_val (digit_char d) = d"
proof -
  assume "d < 10"
  then have "d \<in> {0, 1, 2, 3, 4, 5, 6, 7, 8, 9}" by auto
  then show ?thesis
    by (auto simp: digit_val_def digit_char_def)
qed

lemma read_nat_snoc: "read_nat (ds @ [ch]) = 10 * read_nat ds + digit_val ch"
  by (simp add: read_nat_def)

lemma read_nat_show_nat: "read_nat (show_nat n) = n"
proof (induction n rule: show_nat.induct)
  case (1 n)
  show ?case
  proof (cases "n < 10")
    case True
    then show ?thesis
      using read_nat_snoc [of "[]" "digit_char n"]
      by (simp add: show_nat.simps [of n] digit_val_digit_char read_nat_def)
  next
    case False
    then show ?thesis
      using 1 by (simp add: show_nat.simps [of n] read_nat_snoc digit_val_digit_char)
  qed
qed

lemma show_nat_no_minus: "hd (show_nat n) \<noteq> CHR ''-''"
proof -
  have "hd (show_nat n) \<in> set (show_nat n)"
    using show_nat_nonempty by simp
  then have "hd (show_nat n) \<in> set ''0123456789''"
    using show_nat_digits by blast
  then show ?thesis by auto
qed

lemma read_int_show_int: "read_int (show_int i) = i"
proof (cases "i < 0")
  case True
  then show ?thesis
    by (simp add: read_int_def show_int_def read_nat_show_nat)
next
  case False
  obtain ch ds where c: "show_nat (nat i) = ch # ds"
    using show_nat_nonempty [of "nat i"] by (cases "show_nat (nat i)") auto
  have "ch \<noteq> CHR ''-''"
    using show_nat_no_minus [of "nat i"] c by simp
  moreover have "read_nat (ch # ds) = nat i"
    using read_nat_show_nat [of "nat i"] c by simp
  ultimately show ?thesis
    using False c by (simp add: read_int_def show_int_def)
qed

lemma read_key_text [simp]: "read_key (key_text k) = k"
proof (cases k)
  case (Pair a b)
  have t: "takeWhile (\<lambda>ch. ch \<noteq> CHR '','') (show_int a @ CHR '','' # show_int b) = show_int a"
    using show_int_no_comma [of a] by (subst takeWhile_append2) auto
  show ?thesis
    unfolding Pair read_key_def key_text_def Let_def
    by (simp add: t read_int_show_int)
qed

lemma key_name_text [simp]: "key_name (key_text k)"
  by (simp add: key_name_def)

lemma key_text_eq_iff [simp]: "key_text a = key_text b \<longleftrightarrow> a = b"
  using key_text_inj by blast

lemma keys_of_names_of [simp]: "keys_of (names_of m) = m"
  by (simp add: keys_of_def names_of_def fun_eq_iff)

lemma key_names_names_of [simp]: "key_names (names_of m)"
  by (simp add: key_names_def names_of_def)

lemma read_write_room [simp]: "read_room (write_room rm) = rm"
  by (simp add: read_room_def write_room_def comp_def)

lemma key_members_write [simp]: "key_members (\<lambda>rid. map_option write_room (rs rid))"
  by (auto simp: key_members_def write_room_def list_all_iff)

lemma key_text_00 [simp]: "key_text (0, 0) = ''0,0''"
  by (simp add: key_text_def show_int_def show_nat.simps digit_char_def)

lemma keys_of_single [simp]: "keys_of [''0,0'' \<mapsto> c] = [(0, 0) \<mapsto> c]"
proof -
  have "\<And>k. key_text k = ''0,0'' \<longleftrightarrow> k = (0, 0)"
    using key_text_eq_iff [of _ "(0, 0)"] by (simp del: key_text_eq_iff)
  then show ?thesis
    by (auto simp: keys_of_def fun_eq_iff)
qed

lemma key_names_single [simp]: "key_names [''0,0'' \<mapsto> c]"
  using key_name_text [of "(0, 0)"] by (simp add: key_names_def)

lemma key_names_empty [simp]: "key_names Map.empty"
  by (simp add: key_names_def)

lemma key_members_empty [simp]: "key_members Map.empty"
  by (simp add: key_members_def)

subsection \<open>An example run, and the claims about single operations\<close>


lemma show_int_small [simp]: "show_int 1 = ''1''" "show_int 0 = ''0''" "show_int 2 = ''2''"
  by (simp_all add: show_int_def show_nat.simps digit_char_def)

lemma in_grid_tiny [simp]: "in_grid tiny_config k \<longleftrightarrow> k = (0, 0)"
  by (cases k) (auto simp: in_grid_def tiny_config_def)

lemma init_tiny:
  "init tiny_config empty_store =
     \<lparr>cells = [(0, 0) \<mapsto> default_cell], rooms = Map.empty, nextRoomId = CInt 1,
      editTarget = TargetCell, selectedCellKey = None, selectedRect = None, staged = []\<rparr>"
  by (simp add: init_def rebuildAll_on refreshButtons_on empty_store_def ensure_on_def fun_eq_iff)

lemma staged_tiny:
  "step tiny_config (CellClick (0, 0) True) (init tiny_config empty_store) =
     \<lparr>cells = [(0, 0) \<mapsto> default_cell], rooms = Map.empty, nextRoomId = CInt 1,
      editTarget = TargetCell, selectedCellKey = None, selectedRect = None, staged = [(0, 0)]\<rparr>"
  by (simp add: init_tiny onCellClick_def toggleStage_def rectForKey_def)

lemma example_state_run:
  "run tiny_config [CellClick (0, 0) True, CreateRoomClick] (init tiny_config empty_store)
   = example_state"
proof -
  define s1 where "s1 = step tiny_config (CellClick (0, 0) True) (init tiny_config empty_store)"
  have i: "tracker_inv tiny_config s1"
    unfolding s1_def by (intro inv_step inv_init)
  have s1: "s1 = \<lparr>cells = [(0, 0) \<mapsto> default_cell], rooms = Map.empty, nextRoomId = CInt 1,
      editTarget = TargetCell, selectedCellKey = None, selectedRect = None, staged = [(0, 0)]\<rparr>"
    unfolding s1_def by (rule staged_tiny)
  have st: "staged s1 = [(0, 0)]" by (simp add: s1)
  have f: "\<not> truthy (fst (anyInRoom (staged s1) s1))"
    unfolding st by (simp add: s1 split_def Let_def default_cell_def ensured_cell_def fill_cell_def)
  have c: "createRoomFromStage tiny_config s1 = (Inr ''R1'', example_state)"
    using i f
    by (subst createRoomFromStage_created)
      (simp_all add: st, simp add: s1 example_state_def example_cells_def
        link_on_def fun_eq_iff)
  have "run tiny_config [CellClick (0, 0) True, CreateRoomClick] (init tiny_config empty_store)
        = step tiny_config CreateRoomClick s1"
    by (simp add: run_def s1_def)
  also have "\<dots> = example_state"
    by (simp add: c)
  finally show ?thesis .
qed

lemma example_reachable: "reachable tiny_config example_state"
proof -
  have "reachable tiny_config
      (step tiny_config CreateRoomClick
        (step tiny_config (CellClick (0, 0) True) (init tiny_config empty_store)))"
    by (intro reachable.intros) simp_all
  then show ?thesis
    using example_state_run by (simp add: run_def)
qed





lemma inv_ensure_on:
  "tracker_inv cfg s \<Longrightarrow> ensure_on (A \<inter> Collect (in_grid cfg)) (cells s) = cells s"
  by (intro ensure_on_ok) (auto simp: tracker_inv_def)

lemma inv_ensure_selected:
  "tracker_inv cfg s \<Longrightarrow> ensure_on (set_option (selectedCellKey s)) (cells s) = cells s"
  by (intro ensure_on_ok) (auto simp: tracker_inv_def)

lemma data_of_doExport:
  "blob_data (doExport cfg s) = Some d \<Longrightarrow>
   data_of d = Some \<lparr>store_cells = cells s, store_rooms = rooms s,
                       store_nextRoomId = json_count (nextRoomId s)\<rparr>"
proof -
  have "(\<lambda>rid. map_option read_room (map_option write_room (rooms s rid))) = rooms s"
    by (simp add: fun_eq_iff option.map_comp comp_def option.map_ident)
  moreover assume "blob_data (doExport cfg s) = Some d"
  ultimately show ?thesis
    by (auto simp: doExport_def data_of_def)
qed








lemma inv_selected_ok:
  "tracker_inv cfg s \<Longrightarrow> selectedCellKey s = Some k \<Longrightarrow> ok_at (cells s) k"
  by (cases k) (auto simp: tracker_inv_def)

lemma getCurrentCell_inv:
  assumes "tracker_inv cfg s" "selectedCellKey s = Some k" "cells s k = Some cl"
  shows "getCurrentCell s = (Some cl, s)"
proof -
  have "ok_at (cells s) k"
    using assms by (intro inv_selected_ok)
  then have f: "filled cl"
    using assms(3) by (simp add: ok_at_def)
  then have "snd (ensureCell k s) = s"
    using assms(3) by (intro ensureCell_noop)
  then show ?thesis
    using assms f by (simp add: getCurrentCell_def split_def)
qed

lemma getCurrentRoom_inv:
  assumes "tracker_inv cfg s" "selectedCellKey s = Some k" "cells s k = Some cl"
    "cell_roomId cl = Str rid" "rid \<noteq> []" "rooms s rid = Some rm"
  shows "getCurrentRoom s = (Some (rid, rm), s)"
  using assms getCurrentCell_inv [OF assms(1-3)]
  by (simp add: getCurrentRoom_def roomById_def)

lemma apply_room_mode:
  assumes "tracker_inv cfg s" "selectedCellKey s = Some k" "cells s k = Some cl"
    "cell_roomId cl = Str rid" "rid \<noteq> []" "rooms s rid = Some rm"
    "editTarget s = TargetRoom"
  shows "applyColor cfg v s = s\<lparr>rooms := (rooms s)(rid \<mapsto> rm\<lparr>room_c := Str v\<rparr>)\<rparr>"
    and "applyIcon v s = s\<lparr>rooms := (rooms s)(rid \<mapsto> rm\<lparr>room_icon := Str v\<rparr>)\<rparr>"
    and "applyNotes v s = s\<lparr>rooms := (rooms s)(rid \<mapsto> rm\<lparr>room_n := Str v\<rparr>)\<rparr>"
proof -
  have r: "selectedRect s = Some k"
    using assms by (simp add: tracker_inv_def)
  note c = getCurrentCell_inv [OF assms(1-3)]
  note g = getCurrentRoom_inv [OF assms(1-6)]
  show "applyColor cfg v s = s\<lparr>rooms := (rooms s)(rid \<mapsto> rm\<lparr>room_c := Str v\<rparr>)\<rparr>"
    using assms r by (simp add: applyColor_def c g fold_repaint_on inv_ensure_on)
  show "applyIcon v s = s\<lparr>rooms := (rooms s)(rid \<mapsto> rm\<lparr>room_icon := Str v\<rparr>)\<rparr>"
    using assms r by (simp add: applyIcon_def c g js_or_def)
  show "applyNotes v s = s\<lparr>rooms := (rooms s)(rid \<mapsto> rm\<lparr>room_n := Str v\<rparr>)\<rparr>"
    using assms r by (simp add: applyNotes_def c g)
qed

lemma apply_cell_mode:
  assumes "tracker_inv cfg s" "selectedCellKey s = Some k" "cells s k = Some cl"
    "editTarget s = TargetCell"
  shows "applyColor cfg v s = s\<lparr>cells := (cells s)(k \<mapsto> cl\<lparr>cell_c := Str v\<rparr>)\<rparr>"
    and "applyIcon v s = s\<lparr>cells := (cells s)(k \<mapsto> cl\<lparr>cell_icon := Str v\<rparr>)\<rparr>"
    and "applyNotes v s = s\<lparr>cells := (cells s)(k \<mapsto> cl\<lparr>cell_n := Str v\<rparr>)\<rparr>"
proof -
  have r: "selectedRect s = Some k"
    using assms by (simp add: tracker_inv_def)
  have "ok_at (cells s) k"
    using assms by (intro inv_selected_ok)
  then have f: "filled cl"
    using assms(3) by (simp add: ok_at_def)
  note c = getCurrentCell_inv [OF assms(1-3)]
  have e: "ensure_on {k} ((cells s)(k \<mapsto> cl\<lparr>cell_c := Str v\<rparr>)) = (cells s)(k \<mapsto> cl\<lparr>cell_c := Str v\<rparr>)"
    using f by (intro ensure_on_ok) simp
  show "applyColor cfg v s = s\<lparr>cells := (cells s)(k \<mapsto> cl\<lparr>cell_c := Str v\<rparr>)\<rparr>"
    using assms r by (simp add: applyColor_def c setVisual_def snd_ensureCell_on e)
  show "applyIcon v s = s\<lparr>cells := (cells s)(k \<mapsto> cl\<lparr>cell_icon := Str v\<rparr>)\<rparr>"
    using assms r by (simp add: applyIcon_def c js_or_def)
  show "applyNotes v s = s\<lparr>cells := (cells s)(k \<mapsto> cl\<lparr>cell_n := Str v\<rparr>)\<rparr>"
    using assms r by (simp add: applyNotes_def c)
qed

text \<open>
  C1, as amended.  Let the selected cell belong to the room stored under \<open>rid\<close>.  While
  the room is the edit target (which selecting a grouped cell makes it), \<open>applyColor\<close>,
  \<open>applyIcon\<close> and \<open>applyNotes\<close> leave every cell as it is and write the value into the
  color, icon or notes of that room.  While the cell is the edit target (after Escape),
  they write the value into the cell's own field.  Nothing is reported in either case.
\<close>

theorem apply_on_grouped_cell:
  assumes "reachable cfg s" "selectedCellKey s = Some k" "cells s k = Some cl"
    "cell_roomId cl = Str rid" "rid \<noteq> []" "rooms s rid = Some rm"
  shows "(editTarget s = TargetRoom \<longrightarrow>
            applyColor cfg v s = s\<lparr>rooms := (rooms s)(rid \<mapsto> rm\<lparr>room_c := Str v\<rparr>)\<rparr> \<and>
            applyIcon v s = s\<lparr>rooms := (rooms s)(rid \<mapsto> rm\<lparr>room_icon := Str v\<rparr>)\<rparr> \<and>
            applyNotes v s = s\<lparr>rooms := (rooms s)(rid \<mapsto> rm\<lparr>room_n := Str v\<rparr>)\<rparr>) \<and>
         (editTarget s = TargetCell \<longrightarrow>
            applyColor cfg v s = s\<lparr>cells := (cells s)(k \<mapsto> cl\<lparr>cell_c := Str v\<rparr>)\<rparr> \<and>
            applyIcon v s = s\<lparr>cells := (cells s)(k \<mapsto> cl\<lparr>cell_icon := Str v\<rparr>)\<rparr> \<and>
            applyNotes v s = s\<lparr>cells := (cells s)(k \<mapsto> cl\<lparr>cell_n := Str v\<rparr>)\<rparr>)"
proof -
  note i = reachable_inv [OF assms(1)]
  show ?thesis
    using apply_room_mode [OF i assms(2-6)] apply_cell_mode [OF i assms(2-3)]
    by blast
qed

lemma escaped_example:
  "onEscape tiny_config example_state = example_state\<lparr>editTarget := TargetCell\<rparr>"
proof -
  have i: "tracker_inv tiny_config example_state"
    by (rule reachable_inv [OF example_reachable])
  have e: "ensure_on {(0, 0)} example_cells = example_cells"
    using inv_ensure_selected [OF i] by simp
  show ?thesis
    by (simp add: onEscape_def Let_def clearStage_on split_def getCurrentCell_on
        refreshButtons_on e)
qed

lemma escaped_example_reachable:
  "reachable tiny_config (example_state\<lparr>editTarget := TargetCell\<rparr>)"
  using reach_step [OF example_reachable, of KeyEscape] by (simp add: escaped_example)

theorem apply_on_grouped_cell_witness:
  "reachable tiny_config example_state \<and>
   selectedCellKey example_state = Some (0, 0) \<and>
   cells example_state (0, 0) = Some (default_cell\<lparr>cell_roomId := Str ''R1''\<rparr>) \<and>
   cell_roomId (default_cell\<lparr>cell_roomId := Str ''R1''\<rparr>) = Str ''R1'' \<and>
   ''R1'' \<noteq> [] \<and>
   rooms example_state ''R1'' = Some (new_room ''R1'' [(0, 0)]) \<and>
   editTarget example_state = TargetRoom \<and>
   applyColor tiny_config ''#ff0000'' example_state =
     example_state\<lparr>rooms := (rooms example_state)
       (''R1'' \<mapsto> (new_room ''R1'' [(0, 0)])\<lparr>room_c := Str ''#ff0000''\<rparr>)\<rparr> \<and>
   applyIcon ''#ff0000'' example_state =
     example_state\<lparr>rooms := (rooms example_state)
       (''R1'' \<mapsto> (new_room ''R1'' [(0, 0)])\<lparr>room_icon := Str ''#ff0000''\<rparr>)\<rparr> \<and>
   applyNotes ''#ff0000'' example_state =
     example_state\<lparr>rooms := (rooms example_state)
       (''R1'' \<mapsto> (new_room ''R1'' [(0, 0)])\<lparr>room_n := Str ''#ff0000''\<rparr>)\<rparr>"
  using example_reachable
    apply_on_grouped_cell [OF example_reachable, of "(0, 0)"
      "default_cell\<lparr>cell_roomId := Str ''R1''\<rparr>" "''R1''" "new_room ''R1'' [(0, 0)]" "''#ff0000''"]
  by simp

text \<open>
  C1 as stated fails.  After Shift+Click on the cell \<open>0,0\<close> and "create room", the cell is
  selected and belongs to \<open>R1\<close>; then \<open>applyColor\<close>, \<open>applyIcon\<close> and \<open>applyNotes\<close> each
  change the store (the record of \<open>R1\<close>), and after Escape \<open>applyColor\<close> changes the
  color of the grouped cell itself.
\<close>

theorem apply_on_grouped_cell_changes_store:
  "map_option cell_roomId (cells example_state (0, 0)) = Some (Str ''R1'') \<and>
   selectedCellKey example_state = Some (0, 0) \<and>
   map_option room_c (rooms example_state ''R1'') = Some (Str ''#3c6270'') \<and>
   map_option room_c (rooms (applyColor tiny_config ''#ff0000'' example_state) ''R1'')
     = Some (Str ''#ff0000'') \<and>
   map_option room_icon (rooms example_state ''R1'') = Some (Str []) \<and>
   map_option room_icon (rooms (applyIcon ''*'' example_state) ''R1'') = Some (Str ''*'') \<and>
   map_option room_n (rooms example_state ''R1'') = Some (Str []) \<and>
   map_option room_n (rooms (applyNotes ''trap'' example_state) ''R1'') = Some (Str ''trap'') \<and>
   applyColor tiny_config ''#ff0000'' example_state \<noteq> example_state \<and>
   applyIcon ''*'' example_state \<noteq> example_state \<and>
   applyNotes ''trap'' example_state \<noteq> example_state \<and>
   map_option cell_c (cells (onEscape tiny_config example_state) (0, 0)) = Some Null \<and>
   map_option cell_roomId (cells (onEscape tiny_config example_state) (0, 0)) = Some (Str ''R1'') \<and>
   map_option cell_c
     (cells (applyColor tiny_config ''#ff0000'' (onEscape tiny_config example_state)) (0, 0))
     = Some (Str ''#ff0000'')"
proof -
  note i = reachable_inv [OF example_reachable]
  note i' = reachable_inv [OF escaped_example_reachable]
  have c: "cells example_state (0, 0) = Some (default_cell\<lparr>cell_roomId := Str ''R1''\<rparr>)"
    by simp
  have r: "rooms example_state ''R1'' = Some (new_room ''R1'' [(0, 0)])"
    by simp
  note rm = apply_room_mode [OF i _ c _ _ r, simplified]
  have c': "cells (example_state\<lparr>editTarget := TargetCell\<rparr>) (0, 0)
      = Some (default_cell\<lparr>cell_roomId := Str ''R1''\<rparr>)"
    by simp
  note cm = apply_cell_mode [OF i' _ c', simplified]
  have n1: "applyColor tiny_config ''#ff0000'' example_state \<noteq> example_state"
  proof
    assume "applyColor tiny_config ''#ff0000'' example_state = example_state"
    then have "rooms (applyColor tiny_config ''#ff0000'' example_state) ''R1''
        = rooms example_state ''R1''" by simp
    then show False by (simp add: rm new_room_def)
  qed
  have n2: "applyIcon ''*'' example_state \<noteq> example_state"
  proof
    assume "applyIcon ''*'' example_state = example_state"
    then have "rooms (applyIcon ''*'' example_state) ''R1'' = rooms example_state ''R1''"
      by simp
    then show False by (simp add: rm new_room_def)
  qed
  have n3: "applyNotes ''trap'' example_state \<noteq> example_state"
  proof
    assume "applyNotes ''trap'' example_state = example_state"
    then have "rooms (applyNotes ''trap'' example_state) ''R1'' = rooms example_state ''R1''"
      by simp
    then show False by (simp add: rm new_room_def)
  qed
  show ?thesis
    using n1 n2 n3
    by (simp add: rm escaped_example cm new_room_def default_cell_def)
qed







subsection \<open>The contiguity check\<close>

lemma set_neigh: "set (neigh a) = {b. adjacent a b}"
  by (cases a) (auto simp: neigh_def adjacent_def key_def Let_def)

lemma visit_seen:
  "set (snd (visit keys ns (q, seen))) = set seen \<union> (set ns \<inter> set keys)"
  by (induction ns arbitrary: q seen) auto

lemma visit_queue:
  "set (fst (visit keys ns (q, seen))) = set q \<union> ((set ns \<inter> set keys) - set seen)"
  by (induction ns arbitrary: q seen) auto

lemma visit_distinct:
  "distinct seen \<Longrightarrow> distinct (snd (visit keys ns (q, seen)))"
  by (induction ns arbitrary: q seen) auto

lemma adjacent_sym: "adjacent a b \<Longrightarrow> adjacent b a"
  by (auto simp: adjacent_def)

lemma induced_edges_sym: "sym (induced_edges S)"
  by (auto simp: sym_def induced_edges_def adjacent_sym)

lemma induced_edges_in: "(a, b) \<in> (induced_edges S)\<^sup>* \<Longrightarrow> a \<in> S \<Longrightarrow> b \<in> S"
  by (induction rule: rtrancl_induct) (auto simp: induced_edges_def)

lemma bfs_inv_step:
  assumes i: "bfs_inv keys start (cur # q) seen" and s: "start \<in> set keys"
  shows "bfs_inv keys start (fst (visit keys (neigh cur) (q, seen)))
           (snd (visit keys (neigh cur) (q, seen)))"
proof -
  let ?E = "induced_edges (set keys)"
  have cur: "cur \<in> set seen" "(start, cur) \<in> ?E\<^sup>*"
    using i by (auto simp: bfs_inv_def)
  then have ck: "cur \<in> set keys"
    using induced_edges_in s by blast
  have new: "\<And>n. n \<in> set (neigh cur) \<inter> set keys \<Longrightarrow> (cur, n) \<in> ?E"
    using ck by (simp add: set_neigh induced_edges_def)
  have reach: "\<And>n. n \<in> set (neigh cur) \<inter> set keys \<Longrightarrow> (start, n) \<in> ?E\<^sup>*"
    using new cur(2) by (meson rtrancl.rtrancl_into_rtrancl)
  have out: "\<And>b. (cur, b) \<in> ?E \<Longrightarrow> b \<in> set (neigh cur) \<inter> set keys"
    by (simp add: set_neigh induced_edges_def)
  have cl: "\<And>a b. a \<in> set seen \<Longrightarrow> a \<notin> set (cur # q) \<Longrightarrow> (a, b) \<in> ?E \<Longrightarrow> b \<in> set seen"
    using i unfolding bfs_inv_def by blast
  show ?thesis
    unfolding bfs_inv_def visit_seen visit_queue
  proof (intro conjI allI impI)
    show "set q \<union> (set (neigh cur) \<inter> set keys - set seen)
          \<subseteq> set seen \<union> set (neigh cur) \<inter> set keys"
      using i by (auto simp: bfs_inv_def)
    show "start \<in> set seen \<union> set (neigh cur) \<inter> set keys"
      using i by (simp add: bfs_inv_def)
    show "distinct (snd (visit keys (neigh cur) (q, seen)))"
      using i by (simp add: bfs_inv_def visit_distinct)
    show "set seen \<union> set (neigh cur) \<inter> set keys \<subseteq> {b. (start, b) \<in> ?E\<^sup>*}"
      using i reach by (auto simp: bfs_inv_def)
  next
    fix a b
    assume h: "a \<in> set seen \<union> set (neigh cur) \<inter> set keys \<and>
       a \<notin> set q \<union> (set (neigh cur) \<inter> set keys - set seen) \<and> (a, b) \<in> ?E"
    then have a: "a \<in> set seen" "a \<notin> set q" "(a, b) \<in> ?E" by auto
    show "b \<in> set seen \<union> set (neigh cur) \<inter> set keys"
    proof (cases "a = cur")
      case True
      then show ?thesis using a(3) out by blast
    next
      case False
      then have "b \<in> set seen"
        using a by (intro cl [of a b]) simp_all
      then show ?thesis by simp
    qed
  qed
qed

lemma bfs_reaches:
  assumes "bfs_inv keys start q seen" "start \<in> set keys"
  shows "set (bfs keys q seen) = {b. (start, b) \<in> (induced_edges (set keys))\<^sup>*} \<and>
         distinct (bfs keys q seen)"
  using assms
proof (induction keys q seen rule: bfs.induct)
  case (1 keys seen)
  let ?E = "induced_edges (set keys)"
  have c: "\<And>a b. a \<in> set seen \<Longrightarrow> (a, b) \<in> ?E \<Longrightarrow> b \<in> set seen"
    using 1 by (auto simp: bfs_inv_def)
  have "\<And>b. (start, b) \<in> ?E\<^sup>* \<Longrightarrow> b \<in> set seen"
  proof -
    fix b
    assume "(start, b) \<in> ?E\<^sup>*"
    then show "b \<in> set seen"
      by (induction rule: rtrancl_induct) (use 1 c in \<open>auto simp: bfs_inv_def\<close>)
  qed
  then show ?case
    using 1 by (auto simp: bfs_inv_def)
next
  case (2 keys cur q seen)
  have "bfs_inv keys start (fst (visit keys (neigh cur) (q, seen)))
           (snd (visit keys (neigh cur) (q, seen)))"
    using 2(2,3) by (rule bfs_inv_step)
  then show ?case
    using 2 by simp
qed

lemma bfs_inv_start: "bfs_inv keys start [start] [start]"
  by (auto simp: bfs_inv_def)

lemma reach_subset:
  "start \<in> set keys \<Longrightarrow> {b. (start, b) \<in> (induced_edges (set keys))\<^sup>*} \<subseteq> set keys"
  using induced_edges_in by blast

lemma isContiguous_reach:
  assumes "rest \<noteq> []"
  shows "isContiguous (start # rest) \<longleftrightarrow>
         {b. (start, b) \<in> (induced_edges (set (start # rest)))\<^sup>*} = set (start # rest)"
proof -
  let ?keys = "start # rest"
  let ?R = "{b. (start, b) \<in> (induced_edges (set ?keys))\<^sup>*}"
  have s: "start \<in> set ?keys" by simp
  from bfs_reaches [OF bfs_inv_start s]
  have b: "set (bfs ?keys [start] [start]) = ?R" "distinct (bfs ?keys [start] [start])"
    by simp_all
  have l: "length (bfs ?keys [start] [start]) = card ?R"
    using b distinct_card by fastforce
  have sub: "?R \<subseteq> set ?keys"
    using reach_subset [OF s] .
  have "card ?R = card (set ?keys) \<longleftrightarrow> ?R = set ?keys"
    using sub card_subset_eq [of "set ?keys" ?R] by auto
  moreover obtain k ks where "rest = k # ks"
    using assms by (cases rest) auto
  ultimately show ?thesis
    using l by (simp add: Let_def)
qed

lemma connected_rel_equiv: "equiv S (connected_rel S)"
proof (rule equivI)
  show "connected_rel S \<subseteq> S \<times> S"
    by (auto simp: connected_rel_def)
  show "refl_on S (connected_rel S)"
    by (auto simp: refl_on_def connected_rel_def)
  show "sym (connected_rel S)"
    using sym_rtrancl [OF induced_edges_sym [of S]]
    by (auto simp: sym_def connected_rel_def)
  show "trans (connected_rel S)"
    by (auto simp: trans_def connected_rel_def)
qed

lemma reach_all_iff:
  assumes "start \<in> S"
  shows "{b. (start, b) \<in> (induced_edges S)\<^sup>*} = S \<longleftrightarrow>
         (\<forall>a \<in> S. \<forall>b \<in> S. (a, b) \<in> connected_rel S)"
proof
  assume r: "{b. (start, b) \<in> (induced_edges S)\<^sup>*} = S"
  show "\<forall>a \<in> S. \<forall>b \<in> S. (a, b) \<in> connected_rel S"
  proof (intro ballI)
    fix a b
    assume a: "a \<in> S" and b: "b \<in> S"
    have "(start, a) \<in> (induced_edges S)\<^sup>*" "(start, b) \<in> (induced_edges S)\<^sup>*"
      using r a b by auto
    moreover have "sym ((induced_edges S)\<^sup>*)"
      by (rule sym_rtrancl [OF induced_edges_sym])
    ultimately have "(a, b) \<in> (induced_edges S)\<^sup>*"
      by (meson rtrancl_trans symD)
    then show "(a, b) \<in> connected_rel S"
      using a b by (simp add: connected_rel_def)
  qed
next
  assume c: "\<forall>a \<in> S. \<forall>b \<in> S. (a, b) \<in> connected_rel S"
  have "\<And>b. b \<in> S \<Longrightarrow> (start, b) \<in> (induced_edges S)\<^sup>*"
    using c assms by (auto simp: connected_rel_def)
  moreover have "\<And>b. (start, b) \<in> (induced_edges S)\<^sup>* \<Longrightarrow> b \<in> S"
    using induced_edges_in assms by blast
  ultimately show "{b. (start, b) \<in> (induced_edges S)\<^sup>*} = S"
    by blast
qed

lemma components_le_one:
  assumes "finite S"
  shows "card (components S) \<le> 1 \<longleftrightarrow> (\<forall>a \<in> S. \<forall>b \<in> S. (a, b) \<in> connected_rel S)"
proof
  assume c: "card (components S) \<le> 1"
  have f: "finite (components S)"
    unfolding components_def using assms by (simp add: quotient_def)
  show "\<forall>a \<in> S. \<forall>b \<in> S. (a, b) \<in> connected_rel S"
  proof (intro ballI)
    fix a b
    assume a: "a \<in> S" and b: "b \<in> S"
    have "connected_rel S `` {a} \<in> components S" "connected_rel S `` {b} \<in> components S"
      using a b by (simp_all add: components_def quotientI)
    then have "connected_rel S `` {a} = connected_rel S `` {b}"
      using c f by (metis One_nat_def card_le_Suc0_iff_eq)
    then show "(a, b) \<in> connected_rel S"
      using a b connected_rel_equiv [of S] by (simp add: eq_equiv_class_iff)
  qed
next
  assume c: "\<forall>a \<in> S. \<forall>b \<in> S. (a, b) \<in> connected_rel S"
  have "\<And>a. a \<in> S \<Longrightarrow> connected_rel S `` {a} = S"
    using c by (auto simp: connected_rel_def)
  then have "components S \<subseteq> {S}"
    by (auto simp: components_def quotient_def)
  then have "card (components S) \<le> card {S}"
    by (intro card_mono) simp_all
  then show "card (components S) \<le> 1" by simp
qed

lemma components_nonempty:
  assumes "finite S"
  shows "card (components S) = 0 \<longleftrightarrow> S = {}"
proof -
  have f: "finite (components S)"
    unfolding components_def using assms by (simp add: quotient_def)
  have "components S = {} \<longleftrightarrow> S = {}"
    by (auto simp: components_def quotient_def)
  then show ?thesis using f by simp
qed

lemma isContiguous_components_le:
  "isContiguous keys \<longleftrightarrow> card (components (set keys)) \<le> 1"
proof (cases keys)
  case Nil
  then show ?thesis by (simp add: components_def)
next
  case (Cons start rest)
  show ?thesis
  proof (cases rest)
    case Nil
    have "card (components {start}) \<le> 1"
      by (subst components_le_one) (simp_all add: connected_rel_def)
    then show ?thesis using Cons Nil by simp
  next
    case (Cons k ks)
    then have r: "rest \<noteq> []" by simp
    have s: "start \<in> set keys" using \<open>keys = start # rest\<close> by simp
    have "isContiguous keys \<longleftrightarrow>
        {b. (start, b) \<in> (induced_edges (set keys))\<^sup>*} = set keys"
      unfolding \<open>keys = start # rest\<close> by (rule isContiguous_reach [OF r])
    also have "\<dots> \<longleftrightarrow> (\<forall>a \<in> set keys. \<forall>b \<in> set keys. (a, b) \<in> connected_rel (set keys))"
      by (rule reach_all_iff [OF s])
    also have "\<dots> \<longleftrightarrow> card (components (set keys)) \<le> 1"
      by (rule components_le_one [symmetric]) simp
    finally show ?thesis .
  qed
qed

text \<open>
  C3, as amended.  \<open>isContiguous\<close> returns true exactly when the graph induced on the keys
  by 4-neighbour adjacency has at most one connected component: exactly one when there is
  a key, none when there is no key.  It returns true whenever there is at most one key.
\<close>

theorem isContiguous_iff_connected:
  "(isContiguous keys \<longleftrightarrow> card (components (set keys)) \<le> 1) \<and>
   (keys \<noteq> [] \<longrightarrow> (isContiguous keys \<longleftrightarrow> card (components (set keys)) = 1)) \<and>
   (length keys \<le> 1 \<longrightarrow> isContiguous keys)"
proof (intro conjI impI)
  show le: "isContiguous keys \<longleftrightarrow> card (components (set keys)) \<le> 1"
    by (rule isContiguous_components_le)
  show "isContiguous keys \<longleftrightarrow> card (components (set keys)) = 1" if "keys \<noteq> []"
  proof -
    have "card (components (set keys)) \<noteq> 0"
      using that by (simp add: components_nonempty)
    then show ?thesis using le by linarith
  qed
  show "isContiguous keys" if "length keys \<le> 1"
  proof (cases keys)
    case Nil
    then show ?thesis by simp
  next
    case (Cons k ks)
    then have "ks = []" using that by simp
    then show ?thesis using Cons by simp
  qed
qed

theorem isContiguous_iff_connected_witness:
  "[(0, 0), (1, 0), (0, 1)] \<noteq> ([] :: key list) \<and>
   isContiguous [(0, 0), (1, 0), (0, 1)] \<and>
   card (components (set [(0, 0), (1, 0), (0, 1)])) = 1 \<and>
   \<not> isContiguous [(0, 0), (2, 2)] \<and>
   card (components (set [(0, 0), (2, 2)])) \<noteq> 1 \<and>
   length [(5, 5) :: key] \<le> 1 \<and>
   isContiguous [(5, 5)]"
proof -
  have a: "isContiguous [(0, 0), (1, 0), (0, 1)]"
    by (simp add: neigh_def key_def)
  have b: "\<not> isContiguous [(0, 0), (2, 2)]"
    by (simp add: neigh_def key_def)
  show ?thesis
    using a b isContiguous_iff_connected [of "[(0, 0), (1, 0), (0, 1)]"]
      isContiguous_iff_connected [of "[(0, 0), (2, 2)]"]
      isContiguous_iff_connected [of "[(5, 5)]"]
    by simp
qed

text \<open>
  C3 as stated fails on the empty set: \<open>isContiguous\<close> returns true there, and the empty
  graph has no connected component, not exactly one.
\<close>

theorem isContiguous_empty_no_component:
  "isContiguous [] \<and> card (components (set ([] :: key list))) = 0 \<and>
   \<not> (isContiguous [] \<longleftrightarrow> card (components (set ([] :: key list))) = 1)"
  by (simp add: components_def)



subsection \<open>Rooms and cells stay linked\<close>


lemma link_of_Some_iff:
  "link_of co = Some rid \<longleftrightarrow> (\<exists>cl. co = Some cl \<and> cell_roomId cl = Str rid)"
  by (auto simp: link_of_def split: option.splits jsval.splits)

lemma room_shape_Some_iff:
  "room_shape ro = Some (i, ks) \<longleftrightarrow> (\<exists>rm. ro = Some rm \<and> room_id rm = i \<and> room_cells rm = ks)"
  by (auto simp: room_shape_def)

lemma links_ok_alt:
  "links_ok cs rs \<longleftrightarrow>
     (\<forall>k rid. link_of (cs k) = Some rid \<longrightarrow>
        (\<exists>i ks. room_shape (rs rid) = Some (i, ks) \<and> k \<in> set ks))"
  unfolding links_ok_def link_of_Some_iff room_shape_Some_iff by blast

lemma members_linked_alt:
  "members_linked cs rs \<longleftrightarrow>
     (\<forall>rid i ks k. room_shape (rs rid) = Some (i, ks) \<and> k \<in> set ks \<longrightarrow>
        link_of (cs k) = Some rid)"
  unfolding members_linked_def link_of_Some_iff room_shape_Some_iff by blast

lemma ids_ok_alt:
  "ids_ok rs n \<longleftrightarrow>
     (\<forall>rid i ks. room_shape (rs rid) = Some (i, ks) \<longrightarrow>
        i = Str rid \<and> (\<exists>j. j < n \<and> rid = ''R'' @ show_int j))"
  unfolding ids_ok_def room_shape_Some_iff by blast

lemma members_canon_alt:
  "members_canon rs \<longleftrightarrow>
     (\<forall>r i ks k. room_shape (rs r) = Some (i, ks) \<and> k \<in> set ks \<longrightarrow> reparse k = k)"
  unfolding members_canon_def room_shape_Some_iff by blast

lemma same_skel_wf: "same_skel s' s \<Longrightarrow> wf_state s' = wf_state s"
  by (simp add: same_skel_def wf_state_def well_formed_def links_ok_alt members_linked_alt
      ids_ok_alt members_canon_alt)

lemma same_skel_refl [simp]: "same_skel s s"
  by (simp add: same_skel_def)


lemma link_of_simps [simp]:
  "link_of None = None"
  "link_of (Some (ensured_cell co)) = link_of co"
  "link_of (Some (cl\<lparr>cell_c := v\<rparr>)) = link_of (Some cl)"
  "link_of (Some (cl\<lparr>cell_n := v\<rparr>)) = link_of (Some cl)"
  "link_of (Some (cl\<lparr>cell_icon := v\<rparr>)) = link_of (Some cl)"
  "link_of (Some (cl\<lparr>cell_roomId := Null\<rparr>)) = None"
  "link_of (Some (cl\<lparr>cell_roomId := Str rid\<rparr>)) = Some rid"
  "link_of (Some default_cell) = None"
  by (auto simp: link_of_def ensured_cell_def fill_cell_def Let_def default_cell_def
      split: option.splits jsval.splits)

lemma link_of_ensure_on [simp]: "link_of (ensure_on A cs k) = link_of (cs k)"
  by (simp add: ensure_on_def)

lemma room_shape_simps [simp]:
  "room_shape None = None"
  "room_shape (Some (rm\<lparr>room_c := v\<rparr>)) = room_shape (Some rm)"
  "room_shape (Some (rm\<lparr>room_n := v\<rparr>)) = room_shape (Some rm)"
  "room_shape (Some (rm\<lparr>room_icon := v\<rparr>)) = room_shape (Some rm)"
  "room_shape (Some (rm\<lparr>room_name := v\<rparr>)) = room_shape (Some rm)"
  "room_shape (Some (rm\<lparr>room_kind := v\<rparr>)) = room_shape (Some rm)"
  by (simp_all add: room_shape_def)

lemma same_skel_cells_on [simp]:
  "same_skel (s\<lparr>cells := ensure_on A (cells s)\<rparr>) s"
  by (simp add: same_skel_def)







lemma skel_refreshButtons: "same_skel (refreshButtons s) s"
  by (simp add: refreshButtons_on)


lemma room_edit_skel:
  "rooms s rid = Some rm \<Longrightarrow> room_shape (Some rm') = room_shape (Some rm) \<Longrightarrow>
   same_skel (s\<lparr>rooms := (rooms s)(rid \<mapsto> rm')\<rparr>) s"
  by (simp add: same_skel_def)


lemma same_skel_on_left:
  "same_skel (t\<lparr>cells := ensure_on A (cells t)\<rparr>) s = same_skel t s"
  by (simp add: same_skel_def)

lemma same_skel_on_right:
  "same_skel t (s\<lparr>cells := ensure_on A (cells s)\<rparr>) = same_skel t s"
  by (simp add: same_skel_def)









lemma skel_editTarget [simp]: "same_skel (s\<lparr>editTarget := e\<rparr>) s"
  by (simp add: same_skel_def)








lemma wf_state_on [simp]:
  "wf_state (s\<lparr>cells := ensure_on A (cells s)\<rparr>) = wf_state s"
  by (rule same_skel_wf) simp












text \<open>A well-formed import or \<open>loadState\<close> has a state to go to.\<close>

lemma wf_event_in_model: "wf_event ev \<Longrightarrow> in_model ev"
  by (cases ev) (auto simp: modelled_def wf_snapshot_def split: option.splits)









text \<open>A file that the tracker exports from a well-formed state may be imported.\<close>

lemma export_is_well_formed: "wf_state s \<Longrightarrow> wf_event (ImportFile (doExport cfg s))"
proof -
  assume w: "wf_state s"
  obtain d where d: "blob_data (doExport cfg s) = Some d"
    by (simp add: doExport_def)
  have "wf_store \<lparr>store_cells = cells s, store_rooms = rooms s,
      store_nextRoomId = json_count (nextRoomId s)\<rparr>"
    using w by (auto simp: wf_state_def wf_store_def)
  then show ?thesis
    by (simp add: d wf_snapshot_def data_of_doExport [OF d])
qed

end
